theory Spec2Isabelle
  imports Main "HOL-Library.Word" "HOL-Library.Stream" "HOL-Library.Monad_Syntax"
begin

section \<open>Hunt the Wumpus watch face: data model\<close>

text \<open>
  The embedding follows \<^verbatim>\<open>watch-faces/complication/wumpus_face.c\<close> and its header.
  The C enums become datatypes with the constructors in declaration order, the struct
  \<^verbatim>\<open>wumpus_game_state_t\<close> becomes a record, \<^verbatim>\<open>uint8_t\<close> and \<^verbatim>\<open>int8_t\<close> fields are
  8-bit words (the signed ones are read through \<open>sint\<close>), and the two arrays of the
  struct are lists (20 hazards, 5 path rooms) indexed through \<open>unat\<close>.
  An index outside an array is undefined behaviour in C and unspecified in the model;
  every room the code computes comes from \<open>cave_map\<close> or from a draw below 20.
\<close>

datatype wumpus_hazard_type_t =
    wumpus_hazard_none
  | wumpus_hazard_wumpus
  | wumpus_hazard_bat
  | wumpus_hazard_pitfall
  | wumpus_hazard_arrow

datatype wumpus_melody_t =
  MELODY_NONE | MELODY_STARTUP | MELODY_WIN | MELODY_LOSE | MELODY_BATS

datatype wumpus_current_action_t =
    wumpus_face_shoot
  | wumpus_face_shoot_n
  | wumpus_face_shoot_rooms
  | wumpus_face_go
  | wumpus_face_choosing_room
  | wumpus_face_bat_transport
  | wumpus_face_died
  | wumpus_face_won

record wumpus_game_state_t =
  player_room :: "8 word"
  hazards :: "wumpus_hazard_type_t list"
  arrows :: "8 word"
  current_action :: wumpus_current_action_t
  selected_room_n :: "8 word"
  digits_tick_show :: bool
  action_tick_show :: bool
  hazard_point :: "8 word"
  shots_path_len :: "8 word"
  shots_picked :: "8 word"
  shots_room :: "8 word"
  shots_path :: "8 word list"
  transport_timer :: "8 word"
  transport_dest_room :: "8 word"
  current_melody :: wumpus_melody_t
  melody_step :: "8 word"
  led_cnt :: "8 word"
  active_wumpus_mode :: bool
  sound_mode_on :: bool

text \<open>Game constants (the \<^verbatim>\<open>#define\<close>s at the top of the C file).\<close>

abbreviation (input) WUMPUS_FACE_ROWS :: "'a::numeral" where "WUMPUS_FACE_ROWS \<equiv> 20"
abbreviation (input) WUMPUS_FACE_COLS :: "'a::numeral" where "WUMPUS_FACE_COLS \<equiv> 3"
abbreviation (input) WUMPUS_NUM_PITS :: "'a::numeral" where "WUMPUS_NUM_PITS \<equiv> 2"
abbreviation (input) WUMPUS_NUM_BATS :: "'a::numeral" where "WUMPUS_NUM_BATS \<equiv> 2"
abbreviation (input) WUMPUS_NUM_ARROWS :: "'a::numeral" where "WUMPUS_NUM_ARROWS \<equiv> 5"
abbreviation (input) WUMPUS_MOVE_PROB :: "'a::numeral" where "WUMPUS_MOVE_PROB \<equiv> 75"

text \<open>The fixed labyrinth, row \<open>r\<close> listing the three rooms connected to room \<open>r\<close>.\<close>

definition cave_map :: "8 word list list" where
  "cave_map =
    [[1, 4, 7], [0, 2, 9], [1, 3, 11], [2, 4, 13], [0, 3, 5],
     [4, 6, 14], [5, 7, 16], [0, 6, 8], [7, 9, 17], [1, 8, 10],
     [9, 11, 18], [2, 10, 12], [11, 13, 19], [3, 12, 14], [5, 13, 15],
     [14, 16, 19], [6, 15, 17], [8, 16, 18], [10, 17, 19], [12, 15, 18]]"

section \<open>Random numbers\<close>

text \<open>
  The random source is an input of the model: an infinite stream of raw draws, of which
  every call of \<^verbatim>\<open>_get_rand_num\<close> consumes the head. The result is the draw reduced
  modulo \<open>num_values\<close>, as in the emulator branch \<^verbatim>\<open>rand() % num_values\<close>; the
  hardware branch \<^verbatim>\<open>arc4random_uniform(num_values)\<close> has the same range. The code
  only asks for 20, 3 and 100 values.
\<close>

type_synonym rng = "nat stream"

definition get_rand_num :: "8 word \<Rightarrow> rng \<Rightarrow> 8 word \<times> rng" where
  "get_rand_num num_values rng = (of_nat (shd rng mod unat num_values), stl rng)"

section \<open>Helper functions\<close>

text \<open>
  \<^verbatim>\<open>_find_safe_random_room\<close>: a \<^verbatim>\<open>do ... while\<close> loop that draws rooms until one holds
  neither the Wumpus nor a pit. Nothing bounds the number of draws, so the model is a
  partial function: \<open>None\<close> stands for a loop that never leaves.
\<close>

partial_function (option) find_safe_random_room ::
  "wumpus_game_state_t \<Rightarrow> rng \<Rightarrow> (8 word \<times> rng) option" where
  "find_safe_random_room s rng =
     (case get_rand_num WUMPUS_FACE_ROWS rng of (new_room, rng') \<Rightarrow>
        (let hazard = hazards s ! unat new_room in
         if hazard = wumpus_hazard_wumpus \<or> hazard = wumpus_hazard_pitfall
         then find_safe_random_room s rng'
         else Some (new_room, rng')))"

text \<open>
  \<^verbatim>\<open>_wumpus_flee\<close>: the first room holding the Wumpus is cleared and the Wumpus is put
  into one of its three neighbours; the result says whether a Wumpus was found.
  \<open>wumpus_flee_from i\<close> is the \<^verbatim>\<open>for\<close> loop from index \<open>i\<close> on.
\<close>

function wumpus_flee_from ::
  "nat \<Rightarrow> wumpus_game_state_t \<Rightarrow> rng \<Rightarrow> bool \<times> wumpus_game_state_t \<times> rng" where
  "wumpus_flee_from i s rng =
     (if i < WUMPUS_FACE_ROWS then
        (if hazards s ! i = wumpus_hazard_wumpus then
           (case get_rand_num 3 rng of (r, rng') \<Rightarrow>
              (let wumpus_room = cave_map ! i ! unat r in
               (True,
                s\<lparr>hazards := (hazards s)[i := wumpus_hazard_none,
                                          unat wumpus_room := wumpus_hazard_wumpus]\<rparr>,
                rng')))
         else wumpus_flee_from (i + 1) s rng)
      else (False, s, rng))"
  by pat_completeness auto
termination
  by (relation "measure (\<lambda>(i, s, rng). 20 - i)") auto

declare wumpus_flee_from.simps [simp del]

definition wumpus_flee ::
  "wumpus_game_state_t \<Rightarrow> rng \<Rightarrow> bool \<times> wumpus_game_state_t \<times> rng" where
  "wumpus_flee s rng = wumpus_flee_from 0 s rng"

text \<open>\<^verbatim>\<open>_wumpus_move\<close>: the active-mode roll, then the same relocation.\<close>

definition wumpus_move ::
  "wumpus_game_state_t \<Rightarrow> rng \<Rightarrow> bool \<times> wumpus_game_state_t \<times> rng" where
  "wumpus_move s rng =
     (case get_rand_num 100 rng of (roll, rng') \<Rightarrow>
        if roll > WUMPUS_MOVE_PROB then wumpus_flee s rng' else (False, s, rng'))"

text \<open>\<^verbatim>\<open>_play_melody\<close>; the request for an 8 Hz tick goes to the host and is not state.\<close>

definition play_melody :: "wumpus_melody_t \<Rightarrow> wumpus_game_state_t \<Rightarrow> wumpus_game_state_t" where
  "play_melody melody s =
     (if \<not> sound_mode_on s then s
      else if current_melody s \<noteq> MELODY_NONE then s
      else s\<lparr>current_melody := melody, melody_step := 0\<rparr>)"

text \<open>\<^verbatim>\<open>_go_to_selected_room\<close>: \<open>selected_room_n\<close> is signed, \<open>-1\<close> meaning no room.\<close>

definition go_to_selected_room ::
  "wumpus_game_state_t \<Rightarrow> wumpus_hazard_type_t \<times> wumpus_game_state_t" where
  "go_to_selected_room s =
     (if 0 \<le> sint (selected_room_n s) then
        (let s' = s\<lparr>player_room := cave_map ! unat (player_room s) ! unat (selected_room_n s)\<rparr>
         in (hazards s' ! unat (player_room s'), s'))
      else (wumpus_hazard_none, s))"

section \<open>Display\<close>

text \<open>
  The LCD, the LED, the buzzer and the indicators belong to the host. Of these only the
  text of the seconds position is modelled: it is where \<^verbatim>\<open>_display_hazard\<close> writes
  the hazard code, which is also the cause shown on death. It is passed along as a
  string \<open>lcd\<close>. \<^verbatim>\<open>_display_current_action\<close>, \<^verbatim>\<open>_display_selected_room\<close> and
  \<^verbatim>\<open>_display_room\<close> write other positions only and never touch \<^verbatim>\<open>_state\<close>, so they
  do not appear.
\<close>

fun display_hazard :: "wumpus_hazard_type_t \<Rightarrow> string" where
  "display_hazard wumpus_hazard_wumpus = ''UU''"
| "display_hazard wumpus_hazard_bat = ''Bt''"
| "display_hazard wumpus_hazard_pitfall = ''Pt''"
| "display_hazard wumpus_hazard_arrow = ''Ar''"
| "display_hazard wumpus_hazard_none = ''  ''"

text \<open>
  \<^verbatim>\<open>_display_hazards\<close> collects the hazards of the three neighbouring rooms into a
  local array and shows the entry at \<open>hazard_point\<close>. The array is not initialised, and
  \<open>hazard_point\<close> is not reset when the player changes room, so the entry read can lie
  beyond the collected ones: \<open>stale k\<close> is what the stack holds at index \<open>k\<close> then
  (\<open>None\<close> for a byte that is no hazard code, for which the \<^verbatim>\<open>switch\<close> of
  \<^verbatim>\<open>_display_hazard\<close> writes nothing).
\<close>

definition display_hazards ::
  "(nat \<Rightarrow> wumpus_hazard_type_t option) \<Rightarrow> wumpus_game_state_t \<Rightarrow> string
     \<Rightarrow> wumpus_game_state_t \<times> string" where
  "display_hazards stale s lcd =
     (let found = filter (\<lambda>hazard. hazard \<noteq> wumpus_hazard_none)
                    (map (\<lambda>i. hazards s ! unat (cave_map ! unat (player_room s) ! i))
                       [0..<WUMPUS_FACE_COLS]);
          hazards_cnt = length found
      in if hazards_cnt \<noteq> 0 then
           (let current_hazard =
                  (if unat (hazard_point s) < hazards_cnt
                   then Some (found ! unat (hazard_point s))
                   else stale (unat (hazard_point s)));
                lcd' = (case current_hazard of Some h \<Rightarrow> display_hazard h | None \<Rightarrow> lcd);
                s1 = (if current_hazard = Some wumpus_hazard_bat
                      then play_melody MELODY_BATS s else s);
                s2 = s1\<lparr>hazard_point := hazard_point s1 + 1\<rparr>
            in (if unat (hazard_point s2) \<ge> hazards_cnt then s2\<lparr>hazard_point := 0\<rparr> else s2,
                lcd'))
         else (s, display_hazard wumpus_hazard_none))"

text \<open>\<^verbatim>\<open>_display_death\<close> and \<^verbatim>\<open>_display_won\<close> (the latter ends with "t " in the seconds).\<close>

definition display_death ::
  "wumpus_hazard_type_t \<Rightarrow> wumpus_game_state_t \<Rightarrow> string \<Rightarrow> wumpus_game_state_t \<times> string" where
  "display_death hazard s lcd = (play_melody MELODY_LOSE s, display_hazard hazard)"

definition display_won :: "wumpus_game_state_t \<Rightarrow> string \<Rightarrow> wumpus_game_state_t \<times> string" where
  "display_won s lcd = (play_melody MELODY_WIN s, ''t '')"

section \<open>Hazard generation and a new game\<close>

text \<open>
  \<^verbatim>\<open>_generate_unique\<close>: draw rooms until one is neither the player's room nor occupied.
  Again the loop has no bound, so the result is optional.
\<close>

partial_function (option) generate_unique ::
  "8 word \<Rightarrow> wumpus_game_state_t \<Rightarrow> rng \<Rightarrow> (8 word \<times> rng) option" where
  "generate_unique p s rng =
     (case get_rand_num WUMPUS_FACE_ROWS rng of (v, rng') \<Rightarrow>
        (let unique = (v \<noteq> p);
             unique = (if unique
                       then (if hazards s ! unat v \<noteq> wumpus_hazard_none then False else unique)
                       else unique)
         in if \<not> unique then generate_unique p s rng' else Some (v, rng')))"

text \<open>One assignment \<^verbatim>\<open>_state.hazards[_generate_unique(player_room)] = h\<close>.\<close>

definition place_hazard ::
  "wumpus_hazard_type_t \<Rightarrow> 8 word \<Rightarrow> wumpus_game_state_t \<Rightarrow> rng
     \<Rightarrow> (wumpus_game_state_t \<times> rng) option" where
  "place_hazard h p s rng =
     do { (v, rng') \<leftarrow> generate_unique p s rng;
          Some (s\<lparr>hazards := (hazards s)[unat v := h]\<rparr>, rng') }"

text \<open>The counted \<^verbatim>\<open>for\<close> loops of \<^verbatim>\<open>_generate_hazards\<close>: \<open>n\<close> placements of \<open>h\<close>.\<close>

fun place_hazards ::
  "nat \<Rightarrow> wumpus_hazard_type_t \<Rightarrow> 8 word \<Rightarrow> wumpus_game_state_t \<Rightarrow> rng
     \<Rightarrow> (wumpus_game_state_t \<times> rng) option" where
  "place_hazards 0 h p s rng = Some (s, rng)"
| "place_hazards (Suc n) h p s rng =
     do { (s', rng') \<leftarrow> place_hazard h p s rng; place_hazards n h p s' rng' }"

definition generate_hazards ::
  "8 word \<Rightarrow> wumpus_game_state_t \<Rightarrow> rng \<Rightarrow> (wumpus_game_state_t \<times> rng) option" where
  "generate_hazards p s rng =
     do { let s0 = s\<lparr>hazards := replicate WUMPUS_FACE_ROWS wumpus_hazard_none\<rparr>;
          (s1, rng1) \<leftarrow> place_hazards WUMPUS_NUM_PITS wumpus_hazard_pitfall p s0 rng;
          (s2, rng2) \<leftarrow> place_hazards WUMPUS_NUM_BATS wumpus_hazard_bat p s1 rng1;
          place_hazard wumpus_hazard_wumpus p s2 rng2 }"

text \<open>
  \<^verbatim>\<open>_init_game\<close>. Every field but \<open>shots_path\<close> is assigned, the two settings
  included; the indicator updates go to the host.
\<close>

definition init_game ::
  "wumpus_game_state_t \<Rightarrow> rng \<Rightarrow> (wumpus_game_state_t \<times> rng) option" where
  "init_game s rng =
     (case get_rand_num WUMPUS_FACE_ROWS rng of (room, rng') \<Rightarrow>
        (let s' = s\<lparr>current_action := wumpus_face_shoot,
                    player_room := room,
                    selected_room_n := - 1,
                    digits_tick_show := True,
                    action_tick_show := True,
                    hazard_point := 0,
                    shots_path_len := 0,
                    shots_picked := 0,
                    shots_room := 0,
                    arrows := WUMPUS_NUM_ARROWS,
                    led_cnt := 0,
                    transport_timer := 0,
                    transport_dest_room := 0,
                    current_melody := MELODY_NONE,
                    melody_step := 0,
                    active_wumpus_mode := False,
                    sound_mode_on := True\<rparr>
         in generate_hazards (player_room s') s' rng'))"

section \<open>Shot resolution\<close>

text \<open>
  The inner \<^verbatim>\<open>for\<close> loop of \<^verbatim>\<open>_shot\<close>: is \<open>room\<close> one of the three rooms connected to
  \<open>prev\<close>?
\<close>

definition path_valid :: "8 word \<Rightarrow> 8 word \<Rightarrow> bool" where
  "path_valid prev room =
     list_ex (\<lambda>j. cave_map ! unat prev ! j = room) [0..<WUMPUS_FACE_COLS]"

text \<open>
  The first half of the body of the outer loop, up to the label \<^verbatim>\<open>found\<close>: for
  \<open>i > 0\<close> an entry that is not connected to its predecessor is overwritten in the path
  buffer with a random neighbour of the predecessor (the "crooked arrow").
\<close>

definition crooked_arrow ::
  "nat \<Rightarrow> wumpus_game_state_t \<Rightarrow> rng \<Rightarrow> wumpus_game_state_t \<times> rng" where
  "crooked_arrow i s rng =
     (if i > 0 then
        (if path_valid (shots_path s ! (i - 1)) (shots_path s ! i) then (s, rng)
         else (case get_rand_num WUMPUS_FACE_COLS rng of (rnd, rng') \<Rightarrow>
                 (s\<lparr>shots_path :=
                      (shots_path s)[i := cave_map ! unat (shots_path s ! (i - 1)) ! unat rnd]\<rparr>,
                  rng')))
      else (s, rng))"

text \<open>
  The outer loop of \<^verbatim>\<open>_shot\<close> from index \<open>i\<close> on. The result is the returned action
  with the state, the random source and the seconds text left behind.
\<close>

function shot_from ::
  "nat \<Rightarrow> wumpus_game_state_t \<Rightarrow> rng \<Rightarrow> string
     \<Rightarrow> wumpus_current_action_t \<times> wumpus_game_state_t \<times> rng \<times> string" where
  "shot_from i s rng lcd =
     (if i < unat (shots_path_len s) then
        (let s1 = fst (crooked_arrow i s rng); rng1 = snd (crooked_arrow i s rng) in
         if shots_path s1 ! i = player_room s1 then
           (case display_death wumpus_hazard_arrow s1 lcd of (s2, lcd2) \<Rightarrow>
              (wumpus_face_died, s2, rng1, lcd2))
         else
           (let room = unat (shots_path s1 ! i) in
            if hazards s1 ! room = wumpus_hazard_bat then
              shot_from (i + 1) (s1\<lparr>hazards := (hazards s1)[room := wumpus_hazard_none]\<rparr>)
                rng1 lcd
            else if hazards s1 ! room = wumpus_hazard_wumpus then
              (wumpus_face_won, s1, rng1, lcd)
            else shot_from (i + 1) s1 rng1 lcd))
      else (wumpus_face_shoot, s, rng, lcd))"
  by pat_completeness auto
termination
  by (relation "measure (\<lambda>(i, s, rng, lcd). unat (shots_path_len s) - i)")
    (auto simp: crooked_arrow_def split: prod.splits)

declare shot_from.simps [simp del]

text \<open>\<^verbatim>\<open>_shot\<close>: the arrow count is signed and decremented before the test.\<close>

definition shot ::
  "wumpus_game_state_t \<Rightarrow> rng \<Rightarrow> string
     \<Rightarrow> wumpus_current_action_t \<times> wumpus_game_state_t \<times> rng \<times> string" where
  "shot s rng lcd =
     (let s0 = s\<lparr>arrows := arrows s - 1\<rparr> in
      if sint (arrows s0) < 0 then
        (case display_death wumpus_hazard_arrow s0 lcd of (s1, lcd1) \<Rightarrow>
           (wumpus_face_died, s1, rng, lcd1))
      else shot_from 0 s0 rng lcd)"

section \<open>The watch face\<close>

text \<open>The notes of the four melodies; each table ends with the silent note.\<close>

datatype BuzzerNote =
    BUZZER_NOTE_A3 | BUZZER_NOTE_B3 | BUZZER_NOTE_C4 | BUZZER_NOTE_D4 | BUZZER_NOTE_E4
  | BUZZER_NOTE_F4 | BUZZER_NOTE_F4SHARP_G4FLAT | BUZZER_NOTE_G4 | BUZZER_NOTE_G4SHARP_A4FLAT
  | BUZZER_NOTE_A4 | BUZZER_NOTE_A4SHARP_B4FLAT | BUZZER_NOTE_B4 | BUZZER_NOTE_C5
  | BUZZER_NOTE_E5 | BUZZER_NOTE_G5 | BUZZER_NOTE_C6 | BUZZER_NOTE_B6 | BUZZER_NOTE_C7
  | BUZZER_NOTE_SILENT

definition melody_startup :: "BuzzerNote list" where
  "melody_startup =
     [BUZZER_NOTE_A3, BUZZER_NOTE_B3, BUZZER_NOTE_C4, BUZZER_NOTE_D4,
      BUZZER_NOTE_E4, BUZZER_NOTE_D4, BUZZER_NOTE_C4, BUZZER_NOTE_SILENT]"

definition melody_win :: "BuzzerNote list" where
  "melody_win =
     [BUZZER_NOTE_C4, BUZZER_NOTE_E4, BUZZER_NOTE_G4, BUZZER_NOTE_C5,
      BUZZER_NOTE_E5, BUZZER_NOTE_G5, BUZZER_NOTE_C6, BUZZER_NOTE_SILENT]"

definition melody_lose :: "BuzzerNote list" where
  "melody_lose =
     [BUZZER_NOTE_B4, BUZZER_NOTE_A4SHARP_B4FLAT, BUZZER_NOTE_A4, BUZZER_NOTE_G4SHARP_A4FLAT,
      BUZZER_NOTE_G4, BUZZER_NOTE_F4SHARP_G4FLAT, BUZZER_NOTE_F4, BUZZER_NOTE_SILENT]"

definition melody_bats :: "BuzzerNote list" where
  "melody_bats =
     [BUZZER_NOTE_C7, BUZZER_NOTE_B6, BUZZER_NOTE_C7, BUZZER_NOTE_B6, BUZZER_NOTE_SILENT]"

text \<open>
  What the functions of the face work on: the game state, the random source and the
  seconds text.
\<close>

type_synonym world = "wumpus_game_state_t \<times> rng \<times> string"

text \<open>\<^verbatim>\<open>wumpus_face_activate\<close>: a new game, then the start-up melody.\<close>

definition wumpus_face_activate :: "world \<Rightarrow> world option" where
  "wumpus_face_activate w =
     (case w of (s, rng, lcd) \<Rightarrow>
        do { (s', rng') \<leftarrow> init_game s rng;
             Some (play_melody MELODY_STARTUP s', rng', lcd) })"

text \<open>
  The event types \<^verbatim>\<open>wumpus_face_loop\<close> has a case for; \<open>EVENT_OTHER\<close> stands for all
  the others, which go to the host's default handler and leave \<^verbatim>\<open>_state\<close> alone.
  The value the loop returns (whether the watch may sleep) is not modelled.
\<close>

datatype movement_event_type_t =
    EVENT_ACTIVATE
  | EVENT_TICK
  | EVENT_LIGHT_BUTTON_UP
  | EVENT_LIGHT_LONG_PRESS
  | EVENT_ALARM_BUTTON_UP
  | EVENT_ALARM_LONG_PRESS
  | EVENT_OTHER

text \<open>
  \<^verbatim>\<open>case EVENT_TICK\<close>: a playing melody comes first, then the LED countdown, then the
  bat transport, then the blinking. In the second branch \<^verbatim>\<open>led_cnt--\<close> also runs after
  \<^verbatim>\<open>_init_game\<close> has set the counter to 0, on an unsigned byte.
\<close>

definition loop_tick ::
  "(nat \<Rightarrow> wumpus_hazard_type_t option) \<Rightarrow> world \<Rightarrow> world option" where
  "loop_tick stale w =
     (case w of (s, rng, lcd) \<Rightarrow>
      if current_melody s \<noteq> MELODY_NONE then
        (let melody = (if current_melody s = MELODY_STARTUP then melody_startup
                       else if current_melody s = MELODY_WIN then melody_win
                       else if current_melody s = MELODY_BATS then melody_bats
                       else melody_lose);
             note = melody ! unat (melody_step s)
         in if note = BUZZER_NOTE_SILENT then
              (let s1 = (if current_melody s = MELODY_WIN then s\<lparr>led_cnt := 3\<rparr>
                         else if current_melody s = MELODY_LOSE then s\<lparr>led_cnt := 3\<rparr>
                         else s)
               in Some (s1\<lparr>current_melody := MELODY_NONE, melody_step := 0\<rparr>, rng, lcd))
            else Some (s\<lparr>melody_step := melody_step s + 1\<rparr>, rng, lcd))
      else if led_cnt s > 0 then
        do { (s1, rng1, lcd1) \<leftarrow>
               (if led_cnt s = 1 then
                  do { (s', rng') \<leftarrow> init_game s rng;
                       (case display_hazards stale s' lcd of (s'', lcd') \<Rightarrow>
                          Some (s'', rng', lcd')) }
                else Some (s, rng, lcd));
             Some (s1\<lparr>led_cnt := led_cnt s1 - 1\<rparr>, rng1, lcd1) }
      else if current_action s = wumpus_face_bat_transport then
        (if transport_timer s > 0 then
           Some (s\<lparr>transport_timer := transport_timer s - 1\<rparr>, rng, lcd)
         else
           (let s1 = s\<lparr>player_room := transport_dest_room s\<rparr>;
                new_hazard = hazards s1 ! unat (player_room s1)
            in if new_hazard = wumpus_hazard_bat then
                 do { (room, rng') \<leftarrow> find_safe_random_room s1 rng;
                      Some (play_melody MELODY_BATS
                              (s1\<lparr>transport_dest_room := room, transport_timer := 4\<rparr>),
                            rng', lcd) }
               else
                 (case display_hazards stale (s1\<lparr>current_action := wumpus_face_go\<rparr>) lcd of
                    (s2, lcd2) \<Rightarrow> Some (s2, rng, lcd2))))
      else
        (let s1 = (if current_action s = wumpus_face_choosing_room
                   then s\<lparr>digits_tick_show := \<not> digits_tick_show s\<rparr>
                   else if current_action s \<noteq> wumpus_face_died
                   then s\<lparr>action_tick_show := \<not> action_tick_show s\<rparr>
                   else s)
         in if current_action s1 \<noteq> wumpus_face_died then
              (case display_hazards stale s1 lcd of (s2, lcd2) \<Rightarrow> Some (s2, rng, lcd2))
            else Some (s1, rng, lcd)))"

text \<open>\<^verbatim>\<open>case EVENT_LIGHT_BUTTON_UP\<close>, the "cycle" button.\<close>

definition loop_light_button_up :: "wumpus_game_state_t \<Rightarrow> wumpus_game_state_t" where
  "loop_light_button_up s =
     (case current_action s of
        wumpus_face_shoot \<Rightarrow>
          s\<lparr>current_action := (if current_action s = wumpus_face_go
                                then wumpus_face_shoot else wumpus_face_go),
            action_tick_show := True\<rparr>
      | wumpus_face_go \<Rightarrow>
          s\<lparr>current_action := (if current_action s = wumpus_face_go
                                then wumpus_face_shoot else wumpus_face_go),
            action_tick_show := True\<rparr>
      | wumpus_face_shoot_n \<Rightarrow>
          (let s1 = s\<lparr>shots_path_len := shots_path_len s + 1\<rparr>;
               s2 = (if shots_path_len s1 > 5 then s1\<lparr>shots_path_len := 1\<rparr> else s1)
           in s2\<lparr>action_tick_show := True\<rparr>)
      | wumpus_face_shoot_rooms \<Rightarrow>
          (let s1 = s\<lparr>shots_room := shots_room s + 1\<rparr>;
               s2 = (if shots_room s1 \<ge> WUMPUS_FACE_ROWS then s1\<lparr>shots_room := 0\<rparr> else s1)
           in s2\<lparr>action_tick_show := True\<rparr>)
      | wumpus_face_choosing_room \<Rightarrow>
          (let s1 = s\<lparr>selected_room_n := selected_room_n s + 1\<rparr>
           in if sint (selected_room_n s1) \<ge> WUMPUS_FACE_COLS
              then s1\<lparr>selected_room_n := - 1\<rparr> else s1)
      | wumpus_face_bat_transport \<Rightarrow> s
      | wumpus_face_won \<Rightarrow> s
      | wumpus_face_died \<Rightarrow> s)"

text \<open>
  \<^verbatim>\<open>case EVENT_ALARM_BUTTON_UP\<close>, the "confirm" button: first the \<^verbatim>\<open>switch\<close> on the
  current action (which has no case for the bat transport), then the active-mode roll
  for every action. The source spells the flag of the final test
  \<^verbatim>\<open>active_wVumpus_mode\<close>; the struct has only \<^verbatim>\<open>active_wumpus_mode\<close>.
\<close>

definition confirm_action ::
  "(nat \<Rightarrow> wumpus_hazard_type_t option) \<Rightarrow> world \<Rightarrow> world option" where
  "confirm_action stale w =
     (case w of (s, rng, lcd) \<Rightarrow>
      (case current_action s of
        wumpus_face_go \<Rightarrow>
          Some (s\<lparr>selected_room_n := - 1, digits_tick_show := False,
                  action_tick_show := True,
                  current_action := wumpus_face_choosing_room\<rparr>, rng, lcd)
      | wumpus_face_shoot \<Rightarrow>
          Some (s\<lparr>shots_path_len := 1, action_tick_show := True,
                  current_action := wumpus_face_shoot_n\<rparr>, rng, lcd)
      | wumpus_face_shoot_n \<Rightarrow>
          Some (s\<lparr>shots_room := cave_map ! unat (player_room s) ! 0, shots_picked := 0,
                  action_tick_show := True,
                  current_action := wumpus_face_shoot_rooms\<rparr>, rng, lcd)
      | wumpus_face_choosing_room \<Rightarrow>
          (case go_to_selected_room s of (result, sa) \<Rightarrow>
             if result = wumpus_hazard_bat then
               (let sb = sa\<lparr>current_action := wumpus_face_bat_transport,
                            transport_timer := 4\<rparr> in
                do { (room, rng') \<leftarrow> find_safe_random_room sb rng;
                     Some (play_melody MELODY_BATS (sb\<lparr>transport_dest_room := room\<rparr>),
                           rng', lcd) })
             else if result = wumpus_hazard_none then
               (case display_hazards stale
                       (sa\<lparr>current_action := wumpus_face_go, digits_tick_show := True\<rparr>) lcd of
                  (sb, lcd') \<Rightarrow> Some (sb, rng, lcd'))
             else
               (case display_death result sa lcd of
                  (sb, lcd') \<Rightarrow> Some (sb\<lparr>current_action := wumpus_face_died\<rparr>, rng, lcd')))
      | wumpus_face_shoot_rooms \<Rightarrow>
          (let sa = s\<lparr>shots_path := (shots_path s)[unat (shots_picked s) := shots_room s],
                      shots_room := 0, action_tick_show := True\<rparr>;
               sb = sa\<lparr>shots_picked := shots_picked sa + 1\<rparr>
           in if shots_picked sb \<ge> shots_path_len sb then
                (case shot sb rng lcd of (act, sc, rng', lcd') \<Rightarrow>
                   (let sd = sc\<lparr>current_action := act\<rparr> in
                    if current_action sd = wumpus_face_won then
                      (case display_won sd lcd' of (se, lcd'') \<Rightarrow> Some (se, rng', lcd''))
                    else if \<not> active_wumpus_mode sd then
                      (case wumpus_flee sd rng' of (fled, se, rng'') \<Rightarrow>
                         if fled \<and> hazards se ! unat (player_room se) = wumpus_hazard_wumpus
                         then (case display_death wumpus_hazard_wumpus se lcd' of
                                 (sf, lcd'') \<Rightarrow>
                                   Some (sf\<lparr>current_action := wumpus_face_died\<rparr>, rng'', lcd''))
                         else Some (se, rng'', lcd'))
                    else Some (sd, rng', lcd')))
              else Some (sb, rng, lcd))
      | wumpus_face_bat_transport \<Rightarrow> Some (s, rng, lcd)
      | wumpus_face_won \<Rightarrow> Some (s, rng, lcd)
      | wumpus_face_died \<Rightarrow> Some (s, rng, lcd)))"

definition active_wumpus_roll :: "world \<Rightarrow> world" where
  "active_wumpus_roll w =
     (case w of (s, rng, lcd) \<Rightarrow>
      if active_wumpus_mode s then
        (case wumpus_move s rng of (moved, s1, rng1) \<Rightarrow>
           if moved \<and> hazards s1 ! unat (player_room s1) = wumpus_hazard_wumpus
           then (case display_death wumpus_hazard_wumpus s1 lcd of
                   (s2, lcd2) \<Rightarrow> (s2\<lparr>current_action := wumpus_face_died\<rparr>, rng1, lcd2))
           else (s1, rng1, lcd))
      else (s, rng, lcd))"

definition loop_alarm_button_up ::
  "(nat \<Rightarrow> wumpus_hazard_type_t option) \<Rightarrow> world \<Rightarrow> world option" where
  "loop_alarm_button_up stale w =
     do { w' \<leftarrow> confirm_action stale w; Some (active_wumpus_roll w') }"

text \<open>\<^verbatim>\<open>wumpus_face_loop\<close>, one event at a time.\<close>

definition wumpus_face_loop ::
  "movement_event_type_t \<Rightarrow> (nat \<Rightarrow> wumpus_hazard_type_t option) \<Rightarrow> world \<Rightarrow> world option" where
  "wumpus_face_loop event stale w =
     (case event of
        EVENT_ACTIVATE \<Rightarrow>
          (case w of (s, rng, lcd) \<Rightarrow>
             (case display_hazards stale s lcd of (s', lcd') \<Rightarrow> Some (s', rng, lcd')))
      | EVENT_TICK \<Rightarrow> loop_tick stale w
      | EVENT_LIGHT_BUTTON_UP \<Rightarrow>
          (case w of (s, rng, lcd) \<Rightarrow> Some (loop_light_button_up s, rng, lcd))
      | EVENT_LIGHT_LONG_PRESS \<Rightarrow>
          (case w of (s, rng, lcd) \<Rightarrow>
             Some (s\<lparr>active_wumpus_mode := \<not> active_wumpus_mode s\<rparr>, rng, lcd))
      | EVENT_ALARM_BUTTON_UP \<Rightarrow> loop_alarm_button_up stale w
      | EVENT_ALARM_LONG_PRESS \<Rightarrow>
          (case w of (s, rng, lcd) \<Rightarrow>
             Some (s\<lparr>sound_mode_on := \<not> sound_mode_on s\<rparr>, rng, lcd))
      | EVENT_OTHER \<Rightarrow> Some w)"

text \<open>A sequence of events, each with the stale stack contents of its call.\<close>

fun run ::
  "(movement_event_type_t \<times> (nat \<Rightarrow> wumpus_hazard_type_t option)) list \<Rightarrow> world
     \<Rightarrow> world option" where
  "run [] w = Some w"
| "run (e # es) w = do { w' \<leftarrow> wumpus_face_loop (fst e) (snd e) w; run es w' }"

section \<open>Auxiliary definitions and example data\<close>

text \<open>
  The draws in \<open>[0, 100)\<close> on which the roll of \<^verbatim>\<open>_wumpus_move\<close> leads to a relocation,
  whatever the draws after it are.
\<close>

definition relocation_draws :: "wumpus_game_state_t \<Rightarrow> rng \<Rightarrow> nat list" where
  "relocation_draws s rng = filter (\<lambda>d. fst (wumpus_move s (d ## rng))) [0..<100]"

text \<open>
  Two states differ in display bookkeeping only: the warning cursor and the melody
  fields are the parts of \<^verbatim>\<open>_state\<close> that the display functions write.
\<close>

definition display_only :: "wumpus_game_state_t \<Rightarrow> wumpus_game_state_t \<Rightarrow> bool" where
  "display_only s s' \<longleftrightarrow>
     (\<exists>hp m ms. s' = s\<lparr>hazard_point := hp, current_melody := m, melody_step := ms\<rparr>)"

text \<open>
  Two properties of the room a bat is carrying the player to: it holds no pit; and,
  with the Wumpus in stationary mode, it does not hold the Wumpus.
\<close>

definition dest_no_pit :: "wumpus_game_state_t \<Rightarrow> bool" where
  "dest_no_pit s \<longleftrightarrow>
     (current_action s = wumpus_face_bat_transport \<longrightarrow>
        hazards s ! unat (transport_dest_room s) \<noteq> wumpus_hazard_pitfall)"

definition stationary_dest_safe :: "wumpus_game_state_t \<Rightarrow> bool" where
  "stationary_dest_safe s \<longleftrightarrow>
     \<not> active_wumpus_mode s \<and>
     (current_action s = wumpus_face_bat_transport \<longrightarrow>
        hazards s ! unat (transport_dest_room s) \<noteq> wumpus_hazard_wumpus)"

text \<open>The static \<^verbatim>\<open>_state\<close> before the first activation: all zero.\<close>

definition boot_state :: wumpus_game_state_t where
  "boot_state =
     \<lparr>player_room = 0, hazards = replicate 20 wumpus_hazard_none, arrows = 0,
      current_action = wumpus_face_shoot, selected_room_n = 0, digits_tick_show = False,
      action_tick_show = False, hazard_point = 0, shots_path_len = 0, shots_picked = 0,
      shots_room = 0, shots_path = [0, 0, 0, 0, 0], transport_timer = 0,
      transport_dest_room = 0, current_melody = MELODY_NONE, melody_step = 0, led_cnt = 0,
      active_wumpus_mode = False, sound_mode_on = False\<rparr>"

text \<open>
  A game in progress: the player in room 0, bats in rooms 1 and 12, the Wumpus in
  room 3, pits in rooms 10 and 11.
\<close>

definition example_hazards :: "wumpus_hazard_type_t list" where
  "example_hazards =
     [wumpus_hazard_none, wumpus_hazard_bat, wumpus_hazard_none, wumpus_hazard_wumpus,
      wumpus_hazard_none, wumpus_hazard_none, wumpus_hazard_none, wumpus_hazard_none,
      wumpus_hazard_none, wumpus_hazard_none, wumpus_hazard_pitfall, wumpus_hazard_pitfall,
      wumpus_hazard_bat, wumpus_hazard_none, wumpus_hazard_none, wumpus_hazard_none,
      wumpus_hazard_none, wumpus_hazard_none, wumpus_hazard_none, wumpus_hazard_none]"

definition example_game :: wumpus_game_state_t where
  "example_game =
     \<lparr>player_room = 0, hazards = example_hazards, arrows = 5,
      current_action = wumpus_face_shoot, selected_room_n = - 1, digits_tick_show = True,
      action_tick_show = True, hazard_point = 0, shots_path_len = 0, shots_picked = 0,
      shots_room = 0, shots_path = [0, 0, 0, 0, 0], transport_timer = 0,
      transport_dest_room = 0, current_melody = MELODY_NONE, melody_step = 0, led_cnt = 0,
      active_wumpus_mode = False, sound_mode_on = True\<rparr>"


text \<open>No stale hazard code on the stack.\<close>

definition no_stale :: "nat \<Rightarrow> wumpus_hazard_type_t option" where
  "no_stale k = None"

text \<open>Events for the example runs: a button or tick with no stale hazard code.\<close>

definition event :: "movement_event_type_t \<Rightarrow>
    movement_event_type_t \<times> (nat \<Rightarrow> wumpus_hazard_type_t option)" where
  "event e = (e, no_stale)"

definition four_ticks ::
  "(movement_event_type_t \<times> (nat \<Rightarrow> wumpus_hazard_type_t option)) list" where
  "four_ticks = [event EVENT_TICK, event EVENT_TICK, event EVENT_TICK, event EVENT_TICK]"

text \<open>
  The draws with which the activation of the face sets up the example game, followed
  by the draws \<open>rest\<close>; the first \<open>0\<close> is the player's room, and the draws \<open>0\<close> and
  \<open>11\<close> that hit the player's room and a pit are rejected.
\<close>

definition example_draws :: "rng \<Rightarrow> rng" where
  "example_draws rest = 0 ## 0 ## 10 ## 11 ## 1 ## 11 ## 12 ## 3 ## rest"

definition activated_game :: wumpus_game_state_t where
  "activated_game = example_game\<lparr>current_melody := MELODY_STARTUP\<rparr>"

text \<open>The player has chosen "GO" and confirmed: no neighbour is selected yet.\<close>

definition choosing_game :: wumpus_game_state_t where
  "choosing_game =
     activated_game\<lparr>current_action := wumpus_face_choosing_room, digits_tick_show := False\<rparr>"

text \<open>
  The player has walked into the bat of room 1 and is carried to room 2; the melody
  and the delay are over. Then the landing in room 2, next to the bat and a pit.
\<close>

definition carried_game :: wumpus_game_state_t where
  "carried_game =
     example_game\<lparr>player_room := 1, current_action := wumpus_face_bat_transport,
       selected_room_n := 0, digits_tick_show := False, transport_dest_room := 2\<rparr>"

definition landed_game :: wumpus_game_state_t where
  "landed_game =
     carried_game\<lparr>player_room := 2, current_action := wumpus_face_go, hazard_point := 1,
       current_melody := MELODY_BATS\<rparr>"

text \<open>The same in active mode, after the Wumpus has moved from room 3 to room 2.\<close>

definition carried_active_game :: wumpus_game_state_t where
  "carried_active_game =
     carried_game\<lparr>hazards := example_hazards[3 := wumpus_hazard_none, 2 := wumpus_hazard_wumpus],
       active_wumpus_mode := True\<rparr>"

definition landed_active_game :: wumpus_game_state_t where
  "landed_active_game =
     carried_active_game\<lparr>player_room := 2, current_action := wumpus_face_go,
       hazard_point := 1, current_melody := MELODY_BATS\<rparr>"

text \<open>
  A second layout, with the Wumpus in room 1 next to the player, and the game after the
  player has switched to active mode and shot the Wumpus with the first arrow.
\<close>

definition near_hazards :: "wumpus_hazard_type_t list" where
  "near_hazards =
     [wumpus_hazard_none, wumpus_hazard_wumpus, wumpus_hazard_none, wumpus_hazard_none,
      wumpus_hazard_none, wumpus_hazard_none, wumpus_hazard_none, wumpus_hazard_none,
      wumpus_hazard_none, wumpus_hazard_none, wumpus_hazard_pitfall, wumpus_hazard_pitfall,
      wumpus_hazard_bat, wumpus_hazard_bat, wumpus_hazard_none, wumpus_hazard_none,
      wumpus_hazard_none, wumpus_hazard_none, wumpus_hazard_none, wumpus_hazard_none]"

definition near_draws :: "rng \<Rightarrow> rng" where
  "near_draws rest = 0 ## 10 ## 11 ## 12 ## 13 ## 1 ## rest"

definition won_game :: wumpus_game_state_t where
  "won_game =
     example_game\<lparr>hazards := near_hazards, arrows := 4, current_action := wumpus_face_won,
       shots_path_len := 1, shots_picked := 1, shots_path := [1, 0, 0, 0, 0],
       current_melody := MELODY_STARTUP, active_wumpus_mode := True\<rparr>"

text \<open>What one more press of the confirm button makes of the won game.\<close>

definition died_game :: wumpus_game_state_t where
  "died_game =
     won_game\<lparr>hazards := near_hazards[1 := wumpus_hazard_none, 0 := wumpus_hazard_wumpus],
       current_action := wumpus_face_died\<rparr>"

text \<open>
  The won game at the last tick of the green flash, the sound switched off meanwhile,
  and the game that the next tick starts.
\<close>

definition flash_game :: wumpus_game_state_t where
  "flash_game =
     won_game\<lparr>current_melody := MELODY_NONE, led_cnt := 1, sound_mode_on := False\<rparr>"

definition restarted_game :: wumpus_game_state_t where
  "restarted_game =
     example_game\<lparr>player_room := 5, hazards := near_hazards, shots_path := [1, 0, 0, 0, 0],
       led_cnt := - 1\<rparr>"

text \<open>
  The event sequences of the examples. Walking into the bat: "GO", confirm, first
  neighbour, confirm, then the ticks of the start-up melody (8) and of the delay (4).
  Shooting the Wumpus next door in active mode: long press, "SHOT", distance 1, first
  neighbour. The same with the start-up melody played first, the sound switched off
  after the shot, and the ticks of the winning melody (8) and of the flash (2).
\<close>

definition transport_events ::
  "(movement_event_type_t \<times> (nat \<Rightarrow> wumpus_hazard_type_t option)) list" where
  "transport_events =
     [event EVENT_LIGHT_BUTTON_UP, event EVENT_ALARM_BUTTON_UP,
      event EVENT_LIGHT_BUTTON_UP, event EVENT_ALARM_BUTTON_UP] @
     four_ticks @ four_ticks @ four_ticks"

definition win_events ::
  "(movement_event_type_t \<times> (nat \<Rightarrow> wumpus_hazard_type_t option)) list" where
  "win_events =
     [event EVENT_LIGHT_LONG_PRESS, event EVENT_ALARM_BUTTON_UP,
      event EVENT_ALARM_BUTTON_UP, event EVENT_ALARM_BUTTON_UP]"

definition flash_events ::
  "(movement_event_type_t \<times> (nat \<Rightarrow> wumpus_hazard_type_t option)) list" where
  "flash_events =
     [event EVENT_LIGHT_LONG_PRESS] @ four_ticks @ four_ticks @
     [event EVENT_ALARM_BUTTON_UP, event EVENT_ALARM_BUTTON_UP,
      event EVENT_ALARM_BUTTON_UP, event EVENT_ALARM_LONG_PRESS] @
     four_ticks @ four_ticks @ [event EVENT_TICK, event EVENT_TICK]"

text \<open>
  A third layout, with the Wumpus in room 4 next to the player, and a shot of two rooms
  aimed at room 1 and back at the player's own room 0: the state before the confirm
  that fires, and the state after it.
\<close>

definition beside_hazards :: "wumpus_hazard_type_t list" where
  "beside_hazards =
     [wumpus_hazard_none, wumpus_hazard_none, wumpus_hazard_none, wumpus_hazard_none,
      wumpus_hazard_wumpus, wumpus_hazard_none, wumpus_hazard_none, wumpus_hazard_none,
      wumpus_hazard_none, wumpus_hazard_none, wumpus_hazard_pitfall, wumpus_hazard_pitfall,
      wumpus_hazard_bat, wumpus_hazard_bat, wumpus_hazard_none, wumpus_hazard_none,
      wumpus_hazard_none, wumpus_hazard_none, wumpus_hazard_none, wumpus_hazard_none]"

definition beside_draws :: "rng \<Rightarrow> rng" where
  "beside_draws rest = 0 ## 10 ## 11 ## 12 ## 13 ## 4 ## rest"

definition aim_events ::
  "(movement_event_type_t \<times> (nat \<Rightarrow> wumpus_hazard_type_t option)) list" where
  "aim_events =
     [event EVENT_ALARM_BUTTON_UP, event EVENT_LIGHT_BUTTON_UP,
      event EVENT_ALARM_BUTTON_UP, event EVENT_ALARM_BUTTON_UP]"

definition aiming_game :: wumpus_game_state_t where
  "aiming_game =
     activated_game\<lparr>hazards := beside_hazards, current_action := wumpus_face_shoot_rooms,
       shots_path_len := 2, shots_picked := 1, shots_path := [1, 0, 0, 0, 0]\<rparr>"

definition self_shot_game :: wumpus_game_state_t where
  "self_shot_game =
     aiming_game\<lparr>hazards := beside_hazards[4 := wumpus_hazard_none, 0 := wumpus_hazard_wumpus],
       arrows := 4, current_action := wumpus_face_died, shots_picked := 2\<rparr>"

text \<open>
  The state that the confirm handler passes to \<^verbatim>\<open>_shot\<close> when the path is complete:
  the candidate room committed and the count of picked rooms incremented.
\<close>

definition firing :: "wumpus_game_state_t \<Rightarrow> wumpus_game_state_t" where
  "firing s =
     s\<lparr>shots_path := (shots_path s)[unat (shots_picked s) := shots_room s],
       shots_room := 0, action_tick_show := True, shots_picked := shots_picked s + 1\<rparr>"

text \<open>
  The second layout in active mode, one confirm before the shot of one room at the
  Wumpus in room 1.
\<close>

definition aiming_active_game :: wumpus_game_state_t where
  "aiming_active_game =
     activated_game\<lparr>hazards := near_hazards, current_action := wumpus_face_shoot_rooms,
       shots_path_len := 1, shots_room := 1, active_wumpus_mode := True\<rparr>"

text \<open>
  The example game in stationary mode after five shots of one room into room 1, all
  missed, the first arrow having killed the bat of room 1 and the Wumpus having fled
  from room 3 to 4, 5, 4, 5 and 4: no arrow is left, and the sixth shot is one confirm
  away. Then the state after that confirm.
\<close>

definition shot_events ::
  "(movement_event_type_t \<times> (nat \<Rightarrow> wumpus_hazard_type_t option)) list" where
  "shot_events =
     [event EVENT_ALARM_BUTTON_UP, event EVENT_ALARM_BUTTON_UP, event EVENT_ALARM_BUTTON_UP]"

definition five_misses_events ::
  "(movement_event_type_t \<times> (nat \<Rightarrow> wumpus_hazard_type_t option)) list" where
  "five_misses_events =
     shot_events @ shot_events @ shot_events @ shot_events @ shot_events @
     [event EVENT_ALARM_BUTTON_UP, event EVENT_ALARM_BUTTON_UP]"

definition no_arrows_game :: wumpus_game_state_t where
  "no_arrows_game =
     activated_game\<lparr>hazards := beside_hazards[13 := wumpus_hazard_none], arrows := 0,
       current_action := wumpus_face_shoot_rooms, shots_path_len := 1, shots_room := 1,
       shots_path := [1, 0, 0, 0, 0]\<rparr>"

definition out_of_arrows_game :: wumpus_game_state_t where
  "out_of_arrows_game =
     no_arrows_game\<lparr>hazards := beside_hazards[13 := wumpus_hazard_none,
                                   4 := wumpus_hazard_none, 0 := wumpus_hazard_wumpus],
       arrows := - 1, current_action := wumpus_face_died, shots_picked := 1,
       shots_room := 0\<rparr>"

section \<open>Basic facts\<close>

subsection \<open>Topology and draws\<close>






lemma get_rand_num_20: "get_rand_num 20 rng = (of_nat (shd rng mod 20), stl rng)"
  by (simp add: get_rand_num_def)

lemma get_rand_num_100: "get_rand_num 100 (d ## rng) = (of_nat (d mod 100), rng)"
  by (simp add: get_rand_num_def)


lemma unat_draw_20: "unat (of_nat (n mod 20) :: 8 word) = n mod 20"
proof -
  have "n mod 20 < 256" by (rule less_trans [of _ 20]) simp_all
  then show ?thesis by (simp add: unat_of_nat)
qed

lemma roll_gt: "((of_nat (d mod 100) :: 8 word) > 75) = (75 < d mod 100)"
  by (simp add: word_less_nat_alt unat_of_nat)


subsection \<open>The relocation of the Wumpus\<close>

lemma wumpus_flee_from_fst:
  "fst (wumpus_flee_from i s rng) =
     (\<exists>k. i \<le> k \<and> k < 20 \<and> hazards s ! k = wumpus_hazard_wumpus)"
proof (induction i s rng rule: wumpus_flee_from.induct)
  case (1 i s rng)
  show ?case
  proof (cases "i < 20")
    case False
    then show ?thesis by (subst wumpus_flee_from.simps) auto
  next
    case True
    show ?thesis
    proof (cases "hazards s ! i = wumpus_hazard_wumpus")
      case True
      with \<open>i < 20\<close> show ?thesis
        by (subst wumpus_flee_from.simps) (auto split: prod.splits)
    next
      case False
      have "fst (wumpus_flee_from i s rng) = fst (wumpus_flee_from (i + 1) s rng)"
        using False \<open>i < 20\<close> by (subst wumpus_flee_from.simps) simp
      also have "\<dots> = (\<exists>k. i + 1 \<le> k \<and> k < 20 \<and> hazards s ! k = wumpus_hazard_wumpus)"
        using 1 False \<open>i < 20\<close> by simp
      also have "\<dots> = (\<exists>k. i \<le> k \<and> k < 20 \<and> hazards s ! k = wumpus_hazard_wumpus)"
      proof -
        have "\<And>k. (i + 1 \<le> k \<and> hazards s ! k = wumpus_hazard_wumpus) =
                  (i \<le> k \<and> hazards s ! k = wumpus_hazard_wumpus)"
          using False by (auto simp: Suc_le_eq order_le_less)
        then show ?thesis by blast
      qed
      finally show ?thesis .
    qed
  qed
qed

lemma wumpus_move_fst:
  "fst (wumpus_move s (d ## rng)) =
     (75 < d mod 100 \<and> (\<exists>k<20. hazards s ! k = wumpus_hazard_wumpus))"
  by (simp add: wumpus_move_def get_rand_num_100 roll_gt wumpus_flee_def wumpus_flee_from_fst)

lemma filter_gt75: "filter (\<lambda>d. 75 < d mod 100) [0..<100] = [76..<100]"
proof -
  have "[0..<76 + 24] = [0..<76] @ [76..<76 + 24]"
    by (rule upt_add_eq_append) simp
  then have split: "[0..<100] = [0..<76] @ [76..<100]" by simp
  have low: "filter (\<lambda>d. 75 < d mod 100) [0..<76] = []"
    by (simp add: filter_empty_conv)
  have high: "filter (\<lambda>d. 75 < d mod 100) [76..<100] = [76..<100]"
    by (simp add: filter_id_conv)
  show ?thesis by (simp only: split filter_append low high append_Nil)
qed

lemma relocation_draws_eq:
  assumes "\<exists>k<20. hazards s ! k = wumpus_hazard_wumpus"
  shows "relocation_draws s rng = [76..<100]"
  using assms by (simp add: relocation_draws_def wumpus_move_fst filter_gt75)

lemma example_game_wumpus: "\<exists>k<20. hazards example_game ! k = wumpus_hazard_wumpus"
  by (rule exI [of _ 3]) (simp add: example_game_def example_hazards_def)

subsection \<open>Writes of the display functions\<close>

lemma display_only_refl: "display_only s s"
proof -
  have "s = s\<lparr>hazard_point := hazard_point s, current_melody := current_melody s,
               melody_step := melody_step s\<rparr>" by simp
  then show ?thesis unfolding display_only_def by blast
qed

lemma display_only_fields:
  assumes "display_only s s'"
  shows "player_room s' = player_room s" "hazards s' = hazards s" "arrows s' = arrows s"
    "current_action s' = current_action s" "selected_room_n s' = selected_room_n s"
    "shots_path s' = shots_path s" "shots_path_len s' = shots_path_len s"
    "transport_dest_room s' = transport_dest_room s" "transport_timer s' = transport_timer s"
    "led_cnt s' = led_cnt s"
    "active_wumpus_mode s' = active_wumpus_mode s" "sound_mode_on s' = sound_mode_on s"
  using assms by (auto simp: display_only_def)

lemma display_only_trans:
  assumes "display_only s s1" and "display_only s1 s2"
  shows "display_only s s2"
proof -
  from assms(1) obtain hp m ms where
    s1: "s1 = s\<lparr>hazard_point := hp, current_melody := m, melody_step := ms\<rparr>"
    unfolding display_only_def by blast
  from assms(2) obtain hp' m' ms' where
    s2: "s2 = s1\<lparr>hazard_point := hp', current_melody := m', melody_step := ms'\<rparr>"
    unfolding display_only_def by blast
  have "s2 = s\<lparr>hazard_point := hp', current_melody := m', melody_step := ms'\<rparr>"
    by (simp add: s1 s2)
  then show ?thesis unfolding display_only_def by blast
qed

lemma display_only_hazard_point: "display_only s (s\<lparr>hazard_point := hp\<rparr>)"
proof -
  have "s\<lparr>hazard_point := hp\<rparr> =
        s\<lparr>hazard_point := hp, current_melody := current_melody s, melody_step := melody_step s\<rparr>"
    by simp
  then show ?thesis unfolding display_only_def by blast
qed

lemma play_melody_display_only: "display_only s (play_melody m s)"
proof (cases "\<not> sound_mode_on s \<or> current_melody s \<noteq> MELODY_NONE")
  case True
  then have "play_melody m s = s" by (auto simp: play_melody_def)
  then show ?thesis by (simp add: display_only_refl)
next
  case False
  then have "play_melody m s =
      s\<lparr>hazard_point := hazard_point s, current_melody := m, melody_step := 0\<rparr>"
    by (simp add: play_melody_def)
  then show ?thesis unfolding display_only_def by blast
qed

lemma display_hazards_display_only: "display_only s (fst (display_hazards stale s lcd))"
proof -
  define found where "found = filter (\<lambda>hazard. hazard \<noteq> wumpus_hazard_none)
                    (map (\<lambda>i. hazards s ! unat (cave_map ! unat (player_room s) ! i)) [0..<3])"
  define cur where "cur = (if unat (hazard_point s) < length found
                   then Some (found ! unat (hazard_point s))
                   else stale (unat (hazard_point s)))"
  define s1 where "s1 = (if cur = Some wumpus_hazard_bat then play_melody MELODY_BATS s else s)"
  define s2 where "s2 = s1\<lparr>hazard_point := hazard_point s1 + 1\<rparr>"
  define s3 where "s3 = (if unat (hazard_point s2) \<ge> length found
                         then s2\<lparr>hazard_point := 0\<rparr> else s2)"
  have d1: "display_only s s1"
    by (simp add: s1_def play_melody_display_only display_only_refl)
  have d2: "display_only s1 s2"
    unfolding s2_def by (rule display_only_hazard_point)
  have d3: "display_only s2 s3"
    unfolding s3_def by (simp add: display_only_hazard_point display_only_refl)
  have d: "display_only s s3"
    by (rule display_only_trans [OF display_only_trans [OF d1 d2] d3])
  have "fst (display_hazards stale s lcd) = (if length found \<noteq> 0 then s3 else s)"
    unfolding display_hazards_def found_def [symmetric] Let_def cur_def [symmetric]
      s1_def [symmetric] s2_def [symmetric] s3_def [symmetric]
    by simp
  then show ?thesis using d by (simp add: display_only_refl)
qed

lemma display_death_display_only: "display_only s (fst (display_death h s lcd))"
  by (simp add: display_death_def play_melody_display_only)

lemma play_melody_frame [simp]:
  "player_room (play_melody m s) = player_room s"
  "hazards (play_melody m s) = hazards s"
  "arrows (play_melody m s) = arrows s"
  "shots_path (play_melody m s) = shots_path s"
  "current_action (play_melody m s) = current_action s"
  "active_wumpus_mode (play_melody m s) = active_wumpus_mode s"
  "sound_mode_on (play_melody m s) = sound_mode_on s"
  "transport_dest_room (play_melody m s) = transport_dest_room s"
  by (simp_all add: play_melody_def)

subsection \<open>What the relocation and the safe-room loop change\<close>

lemma nth_list_update_other:
  assumes "xs[i := v] ! j \<noteq> v"
  shows "xs[i := v] ! j = xs ! j"
proof (cases "i < length xs")
  case True
  with assms show ?thesis by (cases "i = j") simp_all
next
  case False
  then have "length xs \<le> i" by simp
  then have "xs[i := v] = xs" by (rule list_update_beyond)
  then show ?thesis by simp
qed

lemma find_safe_random_room_Some:
  assumes "find_safe_random_room s rng = Some y"
  shows "hazards s ! unat (fst y) \<noteq> wumpus_hazard_wumpus \<and>
         hazards s ! unat (fst y) \<noteq> wumpus_hazard_pitfall \<and> unat (fst y) < 20"
proof (rule find_safe_random_room.raw_induct
    [where P = "\<lambda>s rng y. hazards s ! unat (fst y) \<noteq> wumpus_hazard_wumpus \<and>
                  hazards s ! unat (fst y) \<noteq> wumpus_hazard_pitfall \<and> unat (fst y) < 20",
     OF _ assms])
  fix fs s rng y
  assume IH: "\<And>s rng y. fs s rng = Some y \<Longrightarrow>
            hazards s ! unat (fst y) \<noteq> wumpus_hazard_wumpus \<and>
            hazards s ! unat (fst y) \<noteq> wumpus_hazard_pitfall \<and> unat (fst y) < 20"
    and body: "(case get_rand_num 20 rng of
                 (new_room, rng') \<Rightarrow>
                   let hazard = hazards s ! unat new_room
                   in if hazard = wumpus_hazard_wumpus \<or> hazard = wumpus_hazard_pitfall
                      then fs s rng' else Some (new_room, rng')) = Some y"
  define v :: "8 word" where "v = of_nat (shd rng mod 20)"
  have uv: "unat v = shd rng mod 20" by (simp add: v_def unat_draw_20)
  show "hazards s ! unat (fst y) \<noteq> wumpus_hazard_wumpus \<and>
        hazards s ! unat (fst y) \<noteq> wumpus_hazard_pitfall \<and> unat (fst y) < 20"
  proof (cases "hazards s ! unat v = wumpus_hazard_wumpus \<or>
                hazards s ! unat v = wumpus_hazard_pitfall")
    case True
    then have "fs s (stl rng) = Some y"
      using body by (simp add: get_rand_num_20 v_def [symmetric] Let_def)
    then show ?thesis by (rule IH)
  next
    case False
    then have "y = (v, stl rng)"
      using body by (simp add: get_rand_num_20 v_def [symmetric] Let_def)
    then show ?thesis using False uv by simp
  qed
qed

lemma wumpus_flee_from_frame:
  "(\<exists>hz. fst (snd (wumpus_flee_from i s rng)) = s\<lparr>hazards := hz\<rparr>) \<and>
   (\<forall>j. hazards (fst (snd (wumpus_flee_from i s rng))) ! j = wumpus_hazard_pitfall \<longrightarrow>
        hazards s ! j = wumpus_hazard_pitfall) \<and>
   (\<not> fst (wumpus_flee_from i s rng) \<longrightarrow> fst (snd (wumpus_flee_from i s rng)) = s)"
proof (induction i s rng rule: wumpus_flee_from.induct)
  case (1 i s rng)
  show ?case
  proof (cases "i < 20")
    case False
    have "s = s\<lparr>hazards := hazards s\<rparr>" by simp
    then have "\<exists>hz. s = s\<lparr>hazards := hz\<rparr>" by blast
    with False show ?thesis by (subst (1 2 3 4) wumpus_flee_from.simps) simp
  next
    case True
    show ?thesis
    proof (cases "hazards s ! i = wumpus_hazard_wumpus")
      case found: True
      define r where "r = unat (cave_map ! i ! unat (fst (get_rand_num 3 rng)))"
      have eq: "wumpus_flee_from i s rng =
          (True, s\<lparr>hazards := (hazards s)[i := wumpus_hazard_none, r := wumpus_hazard_wumpus]\<rparr>,
           snd (get_rand_num 3 rng))"
        using True found
        by (subst wumpus_flee_from.simps) (simp add: r_def Let_def split: prod.splits)
      have pit: "hazards s ! j = wumpus_hazard_pitfall"
        if "(hazards s)[i := wumpus_hazard_none, r := wumpus_hazard_wumpus] ! j =
            wumpus_hazard_pitfall" for j
      proof -
        from that have "(hazards s)[i := wumpus_hazard_none] ! j = wumpus_hazard_pitfall"
          using nth_list_update_other
            [of "(hazards s)[i := wumpus_hazard_none]" r wumpus_hazard_wumpus j] by simp
        then show ?thesis
          using nth_list_update_other [of "hazards s" i wumpus_hazard_none j] by simp
      qed
      show ?thesis unfolding eq using pit by auto
    next
      case False
      have "wumpus_flee_from i s rng = wumpus_flee_from (i + 1) s rng"
        using True False by (subst wumpus_flee_from.simps) simp
      then show ?thesis using "1.IH" [OF True False] by simp
    qed
  qed
qed

lemma wumpus_flee_frame:
  assumes "wumpus_flee s rng = (fled, s', rng')"
  shows "\<exists>hz. s' = s\<lparr>hazards := hz\<rparr>"
    and "hazards s' ! j = wumpus_hazard_pitfall \<Longrightarrow> hazards s ! j = wumpus_hazard_pitfall"
    and "\<not> fled \<Longrightarrow> s' = s"
  using wumpus_flee_from_frame [of 0 s rng] assms by (simp_all add: wumpus_flee_def)

lemma wumpus_move_frame:
  assumes "wumpus_move s rng = (moved, s', rng')"
  shows "\<exists>hz. s' = s\<lparr>hazards := hz\<rparr>"
    and "hazards s' ! j = wumpus_hazard_pitfall \<Longrightarrow> hazards s ! j = wumpus_hazard_pitfall"
    and "\<not> moved \<Longrightarrow> s' = s"
proof -
  obtain roll rng1 where g: "get_rand_num 100 rng = (roll, rng1)" by (cases "get_rand_num 100 rng")
  have self: "\<exists>hz. s = s\<lparr>hazards := hz\<rparr>"
  proof
    show "s = s\<lparr>hazards := hazards s\<rparr>" by simp
  qed
  show "\<exists>hz. s' = s\<lparr>hazards := hz\<rparr>"
  proof (cases "roll > 75")
    case True
    then have "wumpus_flee s rng1 = (moved, s', rng')" using assms g by (simp add: wumpus_move_def)
    then show ?thesis by (rule wumpus_flee_frame(1))
  next
    case False
    then have "s' = s" using assms g by (simp add: wumpus_move_def)
    then show ?thesis using self by simp
  qed
  show "hazards s ! j = wumpus_hazard_pitfall" if "hazards s' ! j = wumpus_hazard_pitfall"
  proof (cases "roll > 75")
    case True
    then have "wumpus_flee s rng1 = (moved, s', rng')" using assms g by (simp add: wumpus_move_def)
    from wumpus_flee_frame(2) [OF this that] show ?thesis .
  next
    case False
    then have "s' = s" using assms g by (simp add: wumpus_move_def)
    then show ?thesis using that by simp
  qed
  show "s' = s" if "\<not> moved"
  proof (cases "roll > 75")
    case True
    then have "wumpus_flee s rng1 = (moved, s', rng')" using assms g by (simp add: wumpus_move_def)
    from wumpus_flee_frame(3) [OF this that] show ?thesis .
  next
    case False
    then show ?thesis using assms g by (simp add: wumpus_move_def)
  qed
qed

subsection \<open>The loop of the shot\<close>

lemma crooked_arrow_frame [simp]:
  "player_room (fst (crooked_arrow i s rng)) = player_room s"
  "hazards (fst (crooked_arrow i s rng)) = hazards s"
  "shots_path_len (fst (crooked_arrow i s rng)) = shots_path_len s"
  "current_action (fst (crooked_arrow i s rng)) = current_action s"
  "active_wumpus_mode (fst (crooked_arrow i s rng)) = active_wumpus_mode s"
  by (simp_all add: crooked_arrow_def split: prod.splits)

lemma shot_from_step:
  "i < unat (shots_path_len s) \<Longrightarrow>
   shot_from i s rng lcd =
     (let s1 = fst (crooked_arrow i s rng); rng1 = snd (crooked_arrow i s rng) in
         if shots_path s1 ! i = player_room s1 then
           (wumpus_face_died, play_melody MELODY_LOSE s1, rng1, display_hazard wumpus_hazard_arrow)
         else
           (let room = unat (shots_path s1 ! i) in
            if hazards s1 ! room = wumpus_hazard_bat then
              shot_from (i + 1) (s1\<lparr>hazards := (hazards s1)[room := wumpus_hazard_none]\<rparr>)
                rng1 lcd
            else if hazards s1 ! room = wumpus_hazard_wumpus then
              (wumpus_face_won, s1, rng1, lcd)
            else shot_from (i + 1) s1 rng1 lcd))"
  by (subst shot_from.simps) (simp add: display_death_def Let_def)

lemma shot_from_stop:
  "\<not> i < unat (shots_path_len s) \<Longrightarrow>
   shot_from i s rng lcd = (wumpus_face_shoot, s, rng, lcd)"
  by (subst shot_from.simps) simp

lemma crooked_arrow_cases:
  "fst (crooked_arrow i s rng) = s \<or>
   (\<exists>p. fst (crooked_arrow i s rng) = s\<lparr>shots_path := p\<rparr>)"
  by (auto simp: crooked_arrow_def split: prod.splits)

lemma shot_from_frame:
  assumes hz: "\<And>s hz. f (s\<lparr>hazards := hz\<rparr>) = f s"
    and path: "\<And>s p. f (s\<lparr>shots_path := p\<rparr>) = f s"
    and mel: "\<And>s m. f (play_melody m s) = f s"
  shows "f (fst (snd (shot_from i s rng lcd))) = f s"
proof (induction i s rng lcd rule: shot_from.induct)
  case (1 i s rng lcd)
  show ?case
  proof (cases "i < unat (shots_path_len s)")
    case False
    then show ?thesis by (simp add: shot_from_stop)
  next
    case True
    define s1 where "s1 = fst (crooked_arrow i s rng)"
    define rng1 where "rng1 = snd (crooked_arrow i s rng)"
    define room where "room = unat (shots_path s1 ! i)"
    have p1: "f s1 = f s"
      using crooked_arrow_cases [of i s rng] path by (auto simp: s1_def)
    show ?thesis
    proof (cases "shots_path s1 ! i = player_room s1")
      case self: True
      then have "shot_from i s rng lcd =
          (wumpus_face_died, play_melody MELODY_LOSE s1, rng1, display_hazard wumpus_hazard_arrow)"
        using True by (subst shot_from_step) (simp_all add: s1_def rng1_def)
      then show ?thesis using p1 mel by simp
    next
      case other: False
      show ?thesis
      proof (cases "hazards s1 ! room = wumpus_hazard_bat")
        case bat: True
        have "f (fst (snd (shot_from (i + 1)
                (s1\<lparr>hazards := (hazards s1)[room := wumpus_hazard_none]\<rparr>) rng1 lcd)))
              = f (s1\<lparr>hazards := (hazards s1)[room := wumpus_hazard_none]\<rparr>)"
          using "1.IH"(1) [OF True s1_def rng1_def other room_def bat] .
        moreover have "shot_from i s rng lcd = shot_from (i + 1)
                (s1\<lparr>hazards := (hazards s1)[room := wumpus_hazard_none]\<rparr>) rng1 lcd"
          using True other bat
          by (subst shot_from_step) (simp_all add: s1_def rng1_def room_def Let_def)
        ultimately show ?thesis using p1 hz by simp
      next
        case nobat: False
        show ?thesis
        proof (cases "hazards s1 ! room = wumpus_hazard_wumpus")
          case wumpus: True
          then have "shot_from i s rng lcd = (wumpus_face_won, s1, rng1, lcd)"
            using True other nobat
            by (subst shot_from_step) (simp_all add: s1_def rng1_def room_def Let_def)
          then show ?thesis using p1 by simp
        next
          case False
          have "f (fst (snd (shot_from (i + 1) s1 rng1 lcd))) = f s1"
            using "1.IH"(2) [OF True s1_def rng1_def other room_def nobat False] .
          moreover have "shot_from i s rng lcd = shot_from (i + 1) s1 rng1 lcd"
            using True other nobat False
            by (subst shot_from_step) (simp_all add: s1_def rng1_def room_def Let_def)
          ultimately show ?thesis using p1 by simp
        qed
      qed
    qed
  qed
qed

lemma shot_from_action:
  "fst (shot_from i s rng lcd) = wumpus_face_died \<or>
   fst (shot_from i s rng lcd) = wumpus_face_won \<or>
   fst (shot_from i s rng lcd) = wumpus_face_shoot"
proof (induction i s rng lcd rule: shot_from.induct)
  case (1 i s rng lcd)
  show ?case
  proof (cases "i < unat (shots_path_len s)")
    case False
    then show ?thesis by (simp add: shot_from_stop)
  next
    case True
    define s1 where "s1 = fst (crooked_arrow i s rng)"
    define rng1 where "rng1 = snd (crooked_arrow i s rng)"
    define room where "room = unat (shots_path s1 ! i)"
    show ?thesis
    proof (cases "shots_path s1 ! i = player_room s1")
      case self: True
      then show ?thesis using True
        by (subst (1 2 3) shot_from_step) (simp_all add: s1_def rng1_def)
    next
      case other: False
      show ?thesis
      proof (cases "hazards s1 ! room = wumpus_hazard_bat")
        case bat: True
        have "shot_from i s rng lcd = shot_from (i + 1)
                (s1\<lparr>hazards := (hazards s1)[room := wumpus_hazard_none]\<rparr>) rng1 lcd"
          using True other bat
          by (subst shot_from_step) (simp_all add: s1_def rng1_def room_def Let_def)
        then show ?thesis
          using "1.IH"(1) [OF True s1_def rng1_def other room_def bat] by simp
      next
        case nobat: False
        show ?thesis
        proof (cases "hazards s1 ! room = wumpus_hazard_wumpus")
          case wumpus: True
          then have "shot_from i s rng lcd = (wumpus_face_won, s1, rng1, lcd)"
            using True other nobat
            by (subst shot_from_step) (simp_all add: s1_def rng1_def room_def Let_def)
          then show ?thesis by simp
        next
          case False
          have "shot_from i s rng lcd = shot_from (i + 1) s1 rng1 lcd"
            using True other nobat False
            by (subst shot_from_step) (simp_all add: s1_def rng1_def room_def Let_def)
          then show ?thesis
            using "1.IH"(2) [OF True s1_def rng1_def other room_def nobat False] by simp
        qed
      qed
    qed
  qed
qed

lemma shot_frame:
  assumes hz: "\<And>s hz. f (s\<lparr>hazards := hz\<rparr>) = f s"
    and path: "\<And>s p. f (s\<lparr>shots_path := p\<rparr>) = f s"
    and mel: "\<And>s m. f (play_melody m s) = f s"
    and arr: "\<And>s a. f (s\<lparr>arrows := a\<rparr>) = f s"
  shows "f (fst (snd (shot s rng lcd))) = f s"
  using shot_from_frame [of f 0 "s\<lparr>arrows := arrows s - 1\<rparr>" rng lcd, OF hz path mel] mel arr
  by (simp add: shot_def Let_def display_death_def)

lemma shot_action:
  "fst (shot s rng lcd) = wumpus_face_died \<or> fst (shot s rng lcd) = wumpus_face_won \<or>
   fst (shot s rng lcd) = wumpus_face_shoot"
  using shot_from_action [of 0 "s\<lparr>arrows := arrows s - 1\<rparr>" rng lcd]
  by (simp add: shot_def Let_def display_death_def)

lemma shot_active: "active_wumpus_mode (fst (snd (shot s rng lcd))) = active_wumpus_mode s"
  by (rule shot_frame) simp_all

lemma shot_sound: "sound_mode_on (fst (snd (shot s rng lcd))) = sound_mode_on s"
  by (rule shot_frame) simp_all

text \<open>
  What \<^verbatim>\<open>_shot\<close> itself returns, before the confirm handler goes on: with no arrow left
  it returns Died with the cause "Ar" and touches neither path, hazards nor the
  player's room; and at a path room it returns Died for the player's own room, removes
  a bat and goes on, returns Won for the Wumpus, and goes on past a pit or an empty
  room.
\<close>

lemma shot_without_arrows:
  assumes "arrows s = 0"
  shows "shot s rng lcd =
           (wumpus_face_died, play_melody MELODY_LOSE (s\<lparr>arrows := - 1\<rparr>), rng, ''Ar'') \<and>
         (case shot s rng lcd of (action, s', rng', lcd') \<Rightarrow>
            action = wumpus_face_died \<and> lcd' = display_hazard wumpus_hazard_arrow \<and>
            rng' = rng \<and> shots_path s' = shots_path s \<and>
            hazards s' = hazards s \<and> player_room s' = player_room s)"
  using assms by (simp add: shot_def display_death_def)

lemma shot_room_outcomes:
  assumes "i < unat (shots_path_len s)"
    and "crooked_arrow i s rng = (s1, rng1)"
    and "room = shots_path s1 ! i"
  shows "(room = player_room s1 \<longrightarrow>
            shot_from i s rng lcd =
              (wumpus_face_died, play_melody MELODY_LOSE s1, rng1,
               display_hazard wumpus_hazard_arrow)) \<and>
         (room \<noteq> player_room s1 \<and> hazards s1 ! unat room = wumpus_hazard_bat \<longrightarrow>
            shot_from i s rng lcd =
              shot_from (i + 1)
                (s1\<lparr>hazards := (hazards s1)[unat room := wumpus_hazard_none]\<rparr>) rng1 lcd) \<and>
         (room \<noteq> player_room s1 \<and> hazards s1 ! unat room = wumpus_hazard_wumpus \<longrightarrow>
            shot_from i s rng lcd = (wumpus_face_won, s1, rng1, lcd)) \<and>
         (room \<noteq> player_room s1 \<and>
          (hazards s1 ! unat room = wumpus_hazard_pitfall \<or>
           hazards s1 ! unat room = wumpus_hazard_none) \<longrightarrow>
            shot_from i s rng lcd = shot_from (i + 1) s1 rng1 lcd)"
proof -
  have step: "shot_from i s rng lcd =
     (if room = player_room s1 then
        (wumpus_face_died, play_melody MELODY_LOSE s1, rng1, display_hazard wumpus_hazard_arrow)
      else if hazards s1 ! unat room = wumpus_hazard_bat then
        shot_from (i + 1) (s1\<lparr>hazards := (hazards s1)[unat room := wumpus_hazard_none]\<rparr>)
          rng1 lcd
      else if hazards s1 ! unat room = wumpus_hazard_wumpus then
        (wumpus_face_won, s1, rng1, lcd)
      else shot_from (i + 1) s1 rng1 lcd)"
    using assms by (subst shot_from_step) (simp_all add: Let_def)
  show ?thesis by (simp add: step)
qed

subsection \<open>Hazard generation\<close>

lemma generate_unique_Some:
  assumes "generate_unique p s rng = Some y"
  shows "fst y \<noteq> p \<and> hazards s ! unat (fst y) = wumpus_hazard_none \<and> unat (fst y) < 20"
proof (rule generate_unique.raw_induct
    [where P = "\<lambda>p s rng y. fst y \<noteq> p \<and> hazards s ! unat (fst y) = wumpus_hazard_none \<and>
                  unat (fst y) < 20", OF _ assms])
  fix gu p s rng y
  assume IH: "\<And>p s rng y. gu p s rng = Some y \<Longrightarrow>
            fst y \<noteq> p \<and> hazards s ! unat (fst y) = wumpus_hazard_none \<and> unat (fst y) < 20"
    and body: "(case get_rand_num 20 rng of
                 (v, rng') \<Rightarrow>
                   let unique = v \<noteq> p;
                       unique = if unique
                                then if hazards s ! unat v \<noteq> wumpus_hazard_none then False
                                     else unique
                                else unique
                   in if \<not> unique then gu p s rng' else Some (v, rng')) = Some y"
  define v :: "8 word" where "v = of_nat (shd rng mod 20)"
  have uv: "unat v = shd rng mod 20" by (simp add: v_def unat_draw_20)
  show "fst y \<noteq> p \<and> hazards s ! unat (fst y) = wumpus_hazard_none \<and> unat (fst y) < 20"
  proof (cases "v \<noteq> p \<and> hazards s ! unat v = wumpus_hazard_none")
    case True
    then have "y = (v, stl rng)"
      using body by (simp add: get_rand_num_20 v_def [symmetric] Let_def)
    then show ?thesis using True uv by simp
  next
    case False
    then have "gu p s (stl rng) = Some y"
      using body by (auto simp: get_rand_num_20 v_def [symmetric] Let_def split: if_splits)
    then show ?thesis by (rule IH)
  qed
qed

lemma count_list_update:
  "i < length xs \<Longrightarrow>
   count_list (xs[i := h]) x + (if x = xs ! i then 1 else 0) =
   count_list xs x + (if x = h then 1 else 0)"
proof (induction xs arbitrary: i)
  case Nil
  then show ?case by simp
next
  case (Cons a xs)
  show ?case
  proof (cases i)
    case 0
    then show ?thesis by simp
  next
    case (Suc k)
    then have "k < length xs" using Cons.prems by simp
    from Cons.IH [OF this] show ?thesis using Suc by (auto split: if_splits)
  qed
qed

lemma count_list_replicate: "count_list (replicate n x) y = (if x = y then n else 0)"
  by (induction n) auto

lemma place_hazard_counts:
  assumes "place_hazard h p s rng = Some (s', rng')"
    and "length (hazards s) = 20" and "h \<noteq> wumpus_hazard_none"
  shows "length (hazards s') = 20"
    and "count_list (hazards s') h = count_list (hazards s) h + 1"
    and "count_list (hazards s') wumpus_hazard_none + 1 =
         count_list (hazards s) wumpus_hazard_none"
    and "x \<noteq> h \<Longrightarrow> x \<noteq> wumpus_hazard_none \<Longrightarrow>
         count_list (hazards s') x = count_list (hazards s) x"
    and "hazards s ! unat p = wumpus_hazard_none \<Longrightarrow>
         hazards s' ! unat p = wumpus_hazard_none"
proof -
  from assms(1) obtain v where gu: "generate_unique p s rng = Some (v, rng')"
    and s': "s' = s\<lparr>hazards := (hazards s)[unat v := h]\<rparr>"
    by (auto simp: place_hazard_def split: Option.bind_splits)
  from generate_unique_Some [OF gu]
  have v: "v \<noteq> p" "hazards s ! unat v = wumpus_hazard_none" "unat v < 20" by simp_all
  have lt: "unat v < length (hazards s)" using v(3) assms(2) by simp
  show "length (hazards s') = 20" using assms(2) s' by simp
  show "count_list (hazards s') h = count_list (hazards s) h + 1"
    using count_list_update [OF lt, of h h] v(2) assms(3) s' by simp
  show "count_list (hazards s') wumpus_hazard_none + 1 =
        count_list (hazards s) wumpus_hazard_none"
    using count_list_update [OF lt, of h wumpus_hazard_none] v(2) assms(3) s' by simp
  show "count_list (hazards s') x = count_list (hazards s) x"
    if "x \<noteq> h" "x \<noteq> wumpus_hazard_none"
    using count_list_update [OF lt, of h x] v(2) that s' by simp
  show "hazards s' ! unat p = wumpus_hazard_none"
    if "hazards s ! unat p = wumpus_hazard_none"
  proof -
    have "unat v \<noteq> unat p" using v(1) by (simp add: word_unat_eq_iff)
    then show ?thesis using that s' by simp
  qed
qed

lemma replicate_20:
  "replicate 20 x = [x, x, x, x, x, x, x, x, x, x, x, x, x, x, x, x, x, x, x, x]"
  by (simp add: numeral_eq_Suc)

lemma place_hazards_2:
  "place_hazards 2 h p s rng =
     do { (s', rng') \<leftarrow> place_hazard h p s rng; place_hazard h p s' rng' }"
proof -
  have "place_hazards (Suc (Suc 0)) h p s rng =
     do { (s', rng') \<leftarrow> place_hazard h p s rng; place_hazard h p s' rng' }"
    by (simp split: Option.bind_split prod.split)
  then show ?thesis by (simp add: numeral_2_eq_2)
qed

subsection \<open>The roll after a confirm, and a new game\<close>

lemma active_wumpus_roll_frame:
  assumes "active_wumpus_roll (s, rng, lcd) = (s2, rng2, lcd2)"
  shows "active_wumpus_mode s2 = active_wumpus_mode s"
    and "transport_dest_room s2 = transport_dest_room s"
    and "player_room s2 = player_room s"
    and "current_action s2 = current_action s \<or> current_action s2 = wumpus_face_died"
    and "hazards s2 ! j = wumpus_hazard_pitfall \<Longrightarrow> hazards s ! j = wumpus_hazard_pitfall"
    and "\<not> active_wumpus_mode s \<Longrightarrow> s2 = s \<and> rng2 = rng \<and> lcd2 = lcd"
    and "sound_mode_on s2 = sound_mode_on s"
proof -
  obtain moved s1 rng1 where m: "wumpus_move s rng = (moved, s1, rng1)"
    by (cases "wumpus_move s rng") auto
  from wumpus_move_frame(1) [OF m] obtain hz where s1: "s1 = s\<lparr>hazards := hz\<rparr>" by blast
  have pit1: "hazards s1 ! j = wumpus_hazard_pitfall \<Longrightarrow> hazards s ! j = wumpus_hazard_pitfall"
    by (rule wumpus_move_frame(2) [OF m])
  have cases: "(s2, rng2, lcd2) = (s, rng, lcd) \<or> s2 = s1 \<or>
               s2 = (play_melody MELODY_LOSE s1)\<lparr>current_action := wumpus_face_died\<rparr>"
    using assms m
    by (auto simp: active_wumpus_roll_def display_death_def split: if_splits)
  show "active_wumpus_mode s2 = active_wumpus_mode s" using cases s1 by auto
  show "transport_dest_room s2 = transport_dest_room s" using cases s1 by auto
  show "player_room s2 = player_room s" using cases s1 by auto
  show "current_action s2 = current_action s \<or> current_action s2 = wumpus_face_died"
    using cases s1 by auto
  show "hazards s ! j = wumpus_hazard_pitfall" if "hazards s2 ! j = wumpus_hazard_pitfall"
    using cases that pit1 by auto
  show "s2 = s \<and> rng2 = rng \<and> lcd2 = lcd" if "\<not> active_wumpus_mode s"
    using assms that by (simp add: active_wumpus_roll_def)
  show "sound_mode_on s2 = sound_mode_on s" using cases s1 by auto
qed

lemma place_hazard_frame:
  assumes "place_hazard h p s rng = Some (s', rng')"
  shows "\<exists>hz. s' = s\<lparr>hazards := hz\<rparr>"
  using assms by (auto simp: place_hazard_def split: Option.bind_splits)

lemma generate_hazards_frame:
  assumes "generate_hazards p s rng = Some (s', rng')"
  shows "\<exists>hz. s' = s\<lparr>hazards := hz\<rparr>"
proof -
  define s0 where "s0 = s\<lparr>hazards := replicate 20 wumpus_hazard_none\<rparr>"
  from assms obtain s1 r1 s2 r2 s3 r3 s4 r4 where
    p1: "place_hazard wumpus_hazard_pitfall p s0 rng = Some (s1, r1)" and
    p2: "place_hazard wumpus_hazard_pitfall p s1 r1 = Some (s2, r2)" and
    b1: "place_hazard wumpus_hazard_bat p s2 r2 = Some (s3, r3)" and
    b2: "place_hazard wumpus_hazard_bat p s3 r3 = Some (s4, r4)" and
    w: "place_hazard wumpus_hazard_wumpus p s4 r4 = Some (s', rng')"
    by (auto simp: generate_hazards_def place_hazards_2 s0_def Let_def
        split: Option.bind_splits)
  from place_hazard_frame [OF p1] obtain h1 where "s1 = s0\<lparr>hazards := h1\<rparr>" by blast
  moreover from place_hazard_frame [OF p2] obtain h2 where "s2 = s1\<lparr>hazards := h2\<rparr>" by blast
  moreover from place_hazard_frame [OF b1] obtain h3 where "s3 = s2\<lparr>hazards := h3\<rparr>" by blast
  moreover from place_hazard_frame [OF b2] obtain h4 where "s4 = s3\<lparr>hazards := h4\<rparr>" by blast
  moreover from place_hazard_frame [OF w] obtain h5 where "s' = s4\<lparr>hazards := h5\<rparr>" by blast
  ultimately have "s' = s\<lparr>hazards := h5\<rparr>" by (simp add: s0_def)
  then show ?thesis by blast
qed

lemma init_game_fields:
  assumes "init_game s rng = Some (s', rng')"
  shows "current_action s' = wumpus_face_shoot" and "\<not> active_wumpus_mode s'"
    and "sound_mode_on s'" and "arrows s' = 5" and "led_cnt s' = 0"
    and "current_melody s' = MELODY_NONE" and "unat (player_room s') < 20"
proof -
  define room :: "8 word" where "room = of_nat (shd rng mod 20)"
  define s1 where "s1 = s\<lparr>current_action := wumpus_face_shoot,
                    player_room := room,
                    selected_room_n := - 1,
                    digits_tick_show := True,
                    action_tick_show := True,
                    hazard_point := 0,
                    shots_path_len := 0,
                    shots_picked := 0,
                    shots_room := 0,
                    arrows := WUMPUS_NUM_ARROWS,
                    led_cnt := 0,
                    transport_timer := 0,
                    transport_dest_room := 0,
                    current_melody := MELODY_NONE,
                    melody_step := 0,
                    active_wumpus_mode := False,
                    sound_mode_on := True\<rparr>"
  have g: "generate_hazards room s1 (stl rng) = Some (s', rng')"
    using assms by (simp add: init_game_def get_rand_num_20 room_def s1_def Let_def)
  from generate_hazards_frame [OF g] obtain hz where s': "s' = s1\<lparr>hazards := hz\<rparr>" by blast
  have r: "unat room < 20" by (simp add: room_def unat_draw_20)
  show "current_action s' = wumpus_face_shoot" "\<not> active_wumpus_mode s'"
    "sound_mode_on s'" "arrows s' = 5" "led_cnt s' = 0" "current_melody s' = MELODY_NONE"
    by (simp_all add: s' s1_def)
  have pr: "player_room s' = room" by (simp add: s' s1_def)
  show "unat (player_room s') < 20" using r pr by simp
qed

subsection \<open>The confirm button and the tick, case by case\<close>

lemma go_to_selected_room_frame:
  assumes "go_to_selected_room s = (result, sa)"
  shows "\<exists>p. sa = s\<lparr>player_room := p\<rparr>"
    and "sint (selected_room_n s) < 0 \<Longrightarrow> sa = s \<and> result = wumpus_hazard_none"
proof -
  have self: "s = s\<lparr>player_room := player_room s\<rparr>" by simp
  show "\<exists>p. sa = s\<lparr>player_room := p\<rparr>"
  proof (cases "0 \<le> sint (selected_room_n s)")
    case True
    then have "sa = s\<lparr>player_room := cave_map ! unat (player_room s) ! unat (selected_room_n s)\<rparr>"
      using assms by (simp add: go_to_selected_room_def Let_def)
    then show ?thesis by blast
  next
    case False
    then have "sa = s" using assms by (simp add: go_to_selected_room_def)
    then show ?thesis using self by metis
  qed
  show "sa = s \<and> result = wumpus_hazard_none" if "sint (selected_room_n s) < 0"
    using that assms by (simp add: go_to_selected_room_def)
qed

lemma confirm_action_transport:
  assumes "confirm_action stale (s, rng, lcd) = Some (s1, rng1, lcd1)"
  shows "active_wumpus_mode s1 = active_wumpus_mode s"
    and "(s1, rng1, lcd1) = (s, rng, lcd) \<or> current_action s1 \<noteq> wumpus_face_bat_transport \<or>
         (hazards s1 ! unat (transport_dest_room s1) \<noteq> wumpus_hazard_wumpus \<and>
          hazards s1 ! unat (transport_dest_room s1) \<noteq> wumpus_hazard_pitfall)"
    and "sound_mode_on s1 = sound_mode_on s"
proof -
  have "active_wumpus_mode s1 = active_wumpus_mode s \<and>
        ((s1, rng1, lcd1) = (s, rng, lcd) \<or> current_action s1 \<noteq> wumpus_face_bat_transport \<or>
         (hazards s1 ! unat (transport_dest_room s1) \<noteq> wumpus_hazard_wumpus \<and>
          hazards s1 ! unat (transport_dest_room s1) \<noteq> wumpus_hazard_pitfall)) \<and>
        sound_mode_on s1 = sound_mode_on s"
  proof (cases "current_action s")
    case wumpus_face_shoot
    then show ?thesis using assms by (auto simp: confirm_action_def)
  next
    case wumpus_face_shoot_n
    then show ?thesis using assms by (auto simp: confirm_action_def)
  next
    case wumpus_face_shoot_rooms
    define sb where "sb = s\<lparr>shots_path := (shots_path s)[unat (shots_picked s) := shots_room s],
                      shots_room := 0, action_tick_show := True,
                      shots_picked := shots_picked s + 1\<rparr>"
    show ?thesis
    proof (cases "shots_picked sb \<ge> shots_path_len sb")
      case False
      then have "s1 = sb" using assms wumpus_face_shoot_rooms
        by (simp add: confirm_action_def Let_def sb_def)
      then show ?thesis using wumpus_face_shoot_rooms by (simp add: sb_def)
    next
      case True
      obtain act sc rng' lcd' where sh: "shot sb rng lcd = (act, sc, rng', lcd')"
        by (cases "shot sb rng lcd") auto
      define sd where "sd = sc\<lparr>current_action := act\<rparr>"
      have act: "act = wumpus_face_died \<or> act = wumpus_face_won \<or> act = wumpus_face_shoot"
        using shot_action [of sb rng lcd] sh by simp
      have actv: "active_wumpus_mode sd = active_wumpus_mode s"
        using shot_active [of sb rng lcd] sh by (simp add: sd_def sb_def)
      have snd: "sound_mode_on sd = sound_mode_on s"
        using shot_sound [of sb rng lcd] sh by (simp add: sd_def sb_def)
      have eq: "confirm_action stale (s, rng, lcd) =
          (if current_action sd = wumpus_face_won then
             (case display_won sd lcd' of (se, lcd'') \<Rightarrow> Some (se, rng', lcd''))
           else if \<not> active_wumpus_mode sd then
             (case wumpus_flee sd rng' of (fled, se, rng'') \<Rightarrow>
                if fled \<and> hazards se ! unat (player_room se) = wumpus_hazard_wumpus
                then (case display_death wumpus_hazard_wumpus se lcd' of
                        (sf, lcd'') \<Rightarrow>
                          Some (sf\<lparr>current_action := wumpus_face_died\<rparr>, rng'', lcd''))
                else Some (se, rng'', lcd'))
           else Some (sd, rng', lcd'))"
        using wumpus_face_shoot_rooms True sh
        by (simp add: confirm_action_def Let_def sb_def sd_def)
      have res:
          "(if current_action sd = wumpus_face_won then
             (case display_won sd lcd' of (se, lcd'') \<Rightarrow> Some (se, rng', lcd''))
           else if \<not> active_wumpus_mode sd then
             (case wumpus_flee sd rng' of (fled, se, rng'') \<Rightarrow>
                if fled \<and> hazards se ! unat (player_room se) = wumpus_hazard_wumpus
                then (case display_death wumpus_hazard_wumpus se lcd' of
                        (sf, lcd'') \<Rightarrow>
                          Some (sf\<lparr>current_action := wumpus_face_died\<rparr>, rng'', lcd''))
                else Some (se, rng'', lcd'))
           else Some (sd, rng', lcd')) = Some (s1, rng1, lcd1)"
        using assms unfolding eq .
      obtain fled se rng'' where fl: "wumpus_flee sd rng' = (fled, se, rng'')"
        by (cases "wumpus_flee sd rng'") auto
      from wumpus_flee_frame(1) [OF fl] obtain hz where se: "se = sd\<lparr>hazards := hz\<rparr>" by blast
      have "s1 = play_melody MELODY_WIN sd \<or> s1 = sd \<or> s1 = se \<or>
            s1 = (play_melody MELODY_LOSE se)\<lparr>current_action := wumpus_face_died\<rparr>"
        using res fl by (auto simp: display_won_def display_death_def split: if_splits)
      then show ?thesis using act actv snd se by (auto simp: sd_def)
    qed
  next
    case wumpus_face_go
    then show ?thesis using assms by (auto simp: confirm_action_def)
  next
    case wumpus_face_choosing_room
    obtain result sa where g: "go_to_selected_room s = (result, sa)"
      by (cases "go_to_selected_room s") auto
    from go_to_selected_room_frame(1) [OF g] obtain p where sa: "sa = s\<lparr>player_room := p\<rparr>"
      by blast
    show ?thesis
    proof (cases "result = wumpus_hazard_bat")
      case True
      define sb where "sb = sa\<lparr>current_action := wumpus_face_bat_transport,
                                 transport_timer := 4\<rparr>"
      from assms wumpus_face_choosing_room g True
      obtain room where fs: "find_safe_random_room sb rng = Some (room, rng1)"
        and s1: "s1 = play_melody MELODY_BATS (sb\<lparr>transport_dest_room := room\<rparr>)"
        by (auto simp: confirm_action_def Let_def sb_def split: Option.bind_splits)
      from find_safe_random_room_Some [OF fs]
      have "hazards sb ! unat room \<noteq> wumpus_hazard_wumpus"
        "hazards sb ! unat room \<noteq> wumpus_hazard_pitfall" by simp_all
      then show ?thesis using s1 sa by (simp add: sb_def)
    next
      case False
      show ?thesis
      proof (cases "result = wumpus_hazard_none")
        case True
        define sb where "sb = sa\<lparr>current_action := wumpus_face_go, digits_tick_show := True\<rparr>"
        have "s1 = fst (display_hazards stale sb lcd)"
          using assms wumpus_face_choosing_room g True
          by (auto simp: confirm_action_def sb_def split: prod.splits)
        then have "display_only sb s1" by (simp add: display_hazards_display_only)
        from display_only_fields [OF this] show ?thesis using sa by (simp add: sb_def)
      next
        case other: False
        have "s1 = (play_melody MELODY_LOSE sa)\<lparr>current_action := wumpus_face_died\<rparr>"
          using assms wumpus_face_choosing_room g False other
          by (auto simp: confirm_action_def display_death_def)
        then show ?thesis using sa by simp
      qed
    qed
  next
    case wumpus_face_bat_transport
    then show ?thesis using assms by (auto simp: confirm_action_def)
  next
    case wumpus_face_died
    then show ?thesis using assms by (auto simp: confirm_action_def)
  next
    case wumpus_face_won
    then show ?thesis using assms by (auto simp: confirm_action_def)
  qed
  then show "active_wumpus_mode s1 = active_wumpus_mode s"
    and "(s1, rng1, lcd1) = (s, rng, lcd) \<or> current_action s1 \<noteq> wumpus_face_bat_transport \<or>
         (hazards s1 ! unat (transport_dest_room s1) \<noteq> wumpus_hazard_wumpus \<and>
          hazards s1 ! unat (transport_dest_room s1) \<noteq> wumpus_hazard_pitfall)"
    and "sound_mode_on s1 = sound_mode_on s"
    by simp_all
qed

lemma loop_tick_transport:
  assumes "loop_tick stale (s, rng, lcd) = Some (s1, rng1, lcd1)"
  shows "(hazards s1 = hazards s \<and> transport_dest_room s1 = transport_dest_room s \<and>
          current_action s1 = current_action s \<and>
          active_wumpus_mode s1 = active_wumpus_mode s \<and>
          sound_mode_on s1 = sound_mode_on s) \<or>
         (current_action s1 = wumpus_face_shoot \<and> \<not> active_wumpus_mode s1 \<and>
          current_melody s = MELODY_NONE \<and> led_cnt s = 1) \<or>
         (current_action s = wumpus_face_bat_transport \<and>
          current_action s1 = wumpus_face_bat_transport \<and> hazards s1 = hazards s \<and>
          active_wumpus_mode s1 = active_wumpus_mode s \<and>
          sound_mode_on s1 = sound_mode_on s \<and>
          hazards s1 ! unat (transport_dest_room s1) \<noteq> wumpus_hazard_wumpus \<and>
          hazards s1 ! unat (transport_dest_room s1) \<noteq> wumpus_hazard_pitfall) \<or>
         (current_action s = wumpus_face_bat_transport \<and>
          current_action s1 = wumpus_face_go \<and> hazards s1 = hazards s \<and>
          active_wumpus_mode s1 = active_wumpus_mode s \<and>
          sound_mode_on s1 = sound_mode_on s \<and>
          player_room s1 = transport_dest_room s \<and>
          hazards s ! unat (transport_dest_room s) \<noteq> wumpus_hazard_bat)"
proof (cases "current_melody s \<noteq> MELODY_NONE")
  case True
  define tone where "tone =
      (if current_melody s = MELODY_STARTUP then melody_startup
       else if current_melody s = MELODY_WIN then melody_win
       else if current_melody s = MELODY_BATS then melody_bats
       else melody_lose) ! unat (melody_step s)"
  define sa where "sa = (if current_melody s = MELODY_WIN then s\<lparr>led_cnt := 3\<rparr>
                         else if current_melody s = MELODY_LOSE then s\<lparr>led_cnt := 3\<rparr>
                         else s)"
  have eq: "loop_tick stale (s, rng, lcd) =
      (if tone = BUZZER_NOTE_SILENT
       then Some (sa\<lparr>current_melody := MELODY_NONE, melody_step := 0\<rparr>, rng, lcd)
       else Some (s\<lparr>melody_step := melody_step s + 1\<rparr>, rng, lcd))"
    using True by (simp add: loop_tick_def Let_def tone_def sa_def)
  have sa: "hazards sa = hazards s" "transport_dest_room sa = transport_dest_room s"
    "current_action sa = current_action s" "active_wumpus_mode sa = active_wumpus_mode s"
    "sound_mode_on sa = sound_mode_on s"
    by (simp_all add: sa_def)
  show ?thesis
  proof (cases "tone = BUZZER_NOTE_SILENT")
    case True
    then have "s1 = sa\<lparr>current_melody := MELODY_NONE, melody_step := 0\<rparr>"
      using assms unfolding eq by simp
    then show ?thesis using sa by simp
  next
    case False
    then have "s1 = s\<lparr>melody_step := melody_step s + 1\<rparr>"
      using assms unfolding eq by simp
    then show ?thesis by simp
  qed
next
  case no_melody: False
  show ?thesis
  proof (cases "led_cnt s > 0")
    case led: True
    show ?thesis
    proof (cases "led_cnt s = 1")
      case True
      have eq: "loop_tick stale (s, rng, lcd) =
          do { (s', rng') \<leftarrow> init_game s rng;
               Some ((fst (display_hazards stale s' lcd))\<lparr>led_cnt :=
                        led_cnt (fst (display_hazards stale s' lcd)) - 1\<rparr>,
                     rng', snd (display_hazards stale s' lcd)) }"
        using no_melody led True
        by (simp add: loop_tick_def split: Option.bind_split prod.split)
      from assms obtain s' rng' where
        ig: "init_game s rng = Some (s', rng')" and
        s1: "s1 = (fst (display_hazards stale s' lcd))\<lparr>led_cnt :=
                     led_cnt (fst (display_hazards stale s' lcd)) - 1\<rparr>"
        unfolding eq by (auto split: Option.bind_splits)
      have "display_only s' (fst (display_hazards stale s' lcd))"
        by (rule display_hazards_display_only)
      from display_only_fields [OF this] init_game_fields [OF ig]
      show ?thesis using s1 no_melody True by simp
    next
      case False
      then have "s1 = s\<lparr>led_cnt := led_cnt s - 1\<rparr>"
        using assms no_melody led by (simp add: loop_tick_def)
      then show ?thesis by simp
    qed
  next
    case no_led: False
    show ?thesis
    proof (cases "current_action s = wumpus_face_bat_transport")
      case bat: True
      show ?thesis
      proof (cases "transport_timer s > 0")
        case True
        then have "s1 = s\<lparr>transport_timer := transport_timer s - 1\<rparr>"
          using assms no_melody no_led bat by (simp add: loop_tick_def)
        then show ?thesis by simp
      next
        case False
        define sa where "sa = s\<lparr>player_room := transport_dest_room s\<rparr>"
        show ?thesis
        proof (cases "hazards sa ! unat (player_room sa) = wumpus_hazard_bat")
          case True
          have eq: "loop_tick stale (s, rng, lcd) =
              do { (room, rng') \<leftarrow> find_safe_random_room sa rng;
                   Some (play_melody MELODY_BATS
                           (sa\<lparr>transport_dest_room := room, transport_timer := 4\<rparr>),
                         rng', lcd) }"
            using no_melody no_led bat False True
            by (simp add: loop_tick_def Let_def sa_def)
          from assms obtain room where
            fs: "find_safe_random_room sa rng = Some (room, rng1)" and
            s1: "s1 = play_melody MELODY_BATS
                        (sa\<lparr>transport_dest_room := room, transport_timer := 4\<rparr>)"
            unfolding eq by (auto split: Option.bind_splits)
          from find_safe_random_room_Some [OF fs]
          have "hazards sa ! unat room \<noteq> wumpus_hazard_wumpus"
            "hazards sa ! unat room \<noteq> wumpus_hazard_pitfall" by simp_all
          then show ?thesis using s1 bat by (simp add: sa_def)
        next
          case land: False
          define sb where "sb = sa\<lparr>current_action := wumpus_face_go\<rparr>"
          have eq: "loop_tick stale (s, rng, lcd) =
              Some (fst (display_hazards stale sb lcd), rng, snd (display_hazards stale sb lcd))"
            using no_melody no_led bat False land
            by (simp add: loop_tick_def Let_def sa_def sb_def split: prod.split)
          have "s1 = fst (display_hazards stale sb lcd)"
            using assms unfolding eq by simp
          then have "display_only sb s1" by (simp add: display_hazards_display_only)
          from display_only_fields [OF this] show ?thesis
            using bat land by (simp add: sb_def sa_def)
        qed
      qed
    next
      case normal: False
      define sa where "sa = (if current_action s = wumpus_face_choosing_room
                   then s\<lparr>digits_tick_show := \<not> digits_tick_show s\<rparr>
                   else if current_action s \<noteq> wumpus_face_died
                   then s\<lparr>action_tick_show := \<not> action_tick_show s\<rparr>
                   else s)"
      have sa: "hazards sa = hazards s" "transport_dest_room sa = transport_dest_room s"
        "current_action sa = current_action s" "active_wumpus_mode sa = active_wumpus_mode s"
        "sound_mode_on sa = sound_mode_on s"
        by (simp_all add: sa_def)
      have eq: "loop_tick stale (s, rng, lcd) =
          (if current_action sa \<noteq> wumpus_face_died
           then Some (fst (display_hazards stale sa lcd), rng,
                      snd (display_hazards stale sa lcd))
           else Some (sa, rng, lcd))"
        using no_melody no_led normal
        by (simp add: loop_tick_def Let_def sa_def [symmetric] split: prod.split)
      have "s1 = sa \<or> s1 = fst (display_hazards stale sa lcd)"
        using assms unfolding eq by (simp split: if_splits)
      then have "display_only sa s1"
        by (auto simp: display_hazards_display_only display_only_refl)
      from display_only_fields [OF this] show ?thesis using sa by simp
    qed
  qed
qed

lemma loop_light_button_up_transport:
  "(current_action s = wumpus_face_bat_transport \<longrightarrow> loop_light_button_up s = s) \<and>
   (current_action s \<noteq> wumpus_face_bat_transport \<longrightarrow>
      current_action (loop_light_button_up s) \<noteq> wumpus_face_bat_transport) \<and>
   active_wumpus_mode (loop_light_button_up s) = active_wumpus_mode s \<and>
   sound_mode_on (loop_light_button_up s) = sound_mode_on s"
  by (cases "current_action s") (simp_all add: loop_light_button_up_def Let_def)

subsection \<open>Invariants of the bat transport\<close>

lemma alarm_button_up_split:
  assumes "loop_alarm_button_up stale (s, rng, lcd) = Some (s', rng', lcd')"
  obtains s1 rng1 lcd1 where "confirm_action stale (s, rng, lcd) = Some (s1, rng1, lcd1)"
    and "active_wumpus_roll (s1, rng1, lcd1) = (s', rng', lcd')"
proof -
  from assms obtain w1 where c: "confirm_action stale (s, rng, lcd) = Some w1"
    and r: "active_wumpus_roll w1 = (s', rng', lcd')"
    by (auto simp: loop_alarm_button_up_def split: Option.bind_splits)
  obtain s1 rng1 lcd1 where "w1 = (s1, rng1, lcd1)" by (cases w1) auto
  with c r that show thesis by simp
qed

lemma loop_dest_no_pit:
  assumes "wumpus_face_loop ev stale (s, rng, lcd) = Some (s', rng', lcd')"
    and "dest_no_pit s"
  shows "dest_no_pit s'"
proof (cases ev)
  case EVENT_ACTIVATE
  then have "s' = fst (display_hazards stale s lcd)"
    using assms(1) by (auto simp: wumpus_face_loop_def split: prod.splits)
  then have "display_only s s'" by (simp add: display_hazards_display_only)
  from display_only_fields [OF this] assms(2) show ?thesis by (simp add: dest_no_pit_def)
next
  case EVENT_TICK
  then have "loop_tick stale (s, rng, lcd) = Some (s', rng', lcd')"
    using assms(1) by (simp add: wumpus_face_loop_def)
  from loop_tick_transport [OF this] assms(2) show ?thesis
    by (auto simp: dest_no_pit_def)
next
  case EVENT_LIGHT_BUTTON_UP
  then have "s' = loop_light_button_up s"
    using assms(1) by (simp add: wumpus_face_loop_def)
  then show ?thesis using loop_light_button_up_transport [of s] assms(2)
    by (cases "current_action s = wumpus_face_bat_transport") (auto simp: dest_no_pit_def)
next
  case EVENT_LIGHT_LONG_PRESS
  then have "s' = s\<lparr>active_wumpus_mode := \<not> active_wumpus_mode s\<rparr>"
    using assms(1) by (simp add: wumpus_face_loop_def)
  then show ?thesis using assms(2) by (simp add: dest_no_pit_def)
next
  case EVENT_ALARM_BUTTON_UP
  then have "loop_alarm_button_up stale (s, rng, lcd) = Some (s', rng', lcd')"
    using assms(1) by (simp add: wumpus_face_loop_def)
  then obtain s1 rng1 lcd1 where
    c: "confirm_action stale (s, rng, lcd) = Some (s1, rng1, lcd1)" and
    r: "active_wumpus_roll (s1, rng1, lcd1) = (s', rng', lcd')"
    by (rule alarm_button_up_split)
  have i1: "dest_no_pit s1"
    using confirm_action_transport(2) [OF c] assms(2) by (auto simp: dest_no_pit_def)
  note f = active_wumpus_roll_frame [OF r]
  show ?thesis
    unfolding dest_no_pit_def
  proof
    assume a: "current_action s' = wumpus_face_bat_transport"
    then have "current_action s1 = wumpus_face_bat_transport" using f(4) by auto
    then have "hazards s1 ! unat (transport_dest_room s1) \<noteq> wumpus_hazard_pitfall"
      using i1 by (simp add: dest_no_pit_def)
    then show "hazards s' ! unat (transport_dest_room s') \<noteq> wumpus_hazard_pitfall"
      using f(5) [of "unat (transport_dest_room s1)"] f(2) by auto
  qed
next
  case EVENT_ALARM_LONG_PRESS
  then have "s' = s\<lparr>sound_mode_on := \<not> sound_mode_on s\<rparr>"
    using assms(1) by (simp add: wumpus_face_loop_def)
  then show ?thesis using assms(2) by (simp add: dest_no_pit_def)
next
  case EVENT_OTHER
  then show ?thesis using assms by (simp add: wumpus_face_loop_def)
qed

lemma loop_stationary_dest_safe:
  assumes "wumpus_face_loop ev stale (s, rng, lcd) = Some (s', rng', lcd')"
    and "ev \<noteq> EVENT_LIGHT_LONG_PRESS"
    and "stationary_dest_safe s"
  shows "stationary_dest_safe s'"
proof (cases ev)
  case EVENT_ACTIVATE
  then have "s' = fst (display_hazards stale s lcd)"
    using assms(1) by (auto simp: wumpus_face_loop_def split: prod.splits)
  then have "display_only s s'" by (simp add: display_hazards_display_only)
  from display_only_fields [OF this] assms(3) show ?thesis
    by (simp add: stationary_dest_safe_def)
next
  case EVENT_TICK
  then have "loop_tick stale (s, rng, lcd) = Some (s', rng', lcd')"
    using assms(1) by (simp add: wumpus_face_loop_def)
  from loop_tick_transport [OF this] assms(3) show ?thesis
    by (auto simp: stationary_dest_safe_def)
next
  case EVENT_LIGHT_BUTTON_UP
  then have "s' = loop_light_button_up s"
    using assms(1) by (simp add: wumpus_face_loop_def)
  then show ?thesis using loop_light_button_up_transport [of s] assms(3)
    by (cases "current_action s = wumpus_face_bat_transport")
      (auto simp: stationary_dest_safe_def)
next
  case EVENT_LIGHT_LONG_PRESS
  then show ?thesis using assms(2) by simp
next
  case EVENT_ALARM_BUTTON_UP
  then have "loop_alarm_button_up stale (s, rng, lcd) = Some (s', rng', lcd')"
    using assms(1) by (simp add: wumpus_face_loop_def)
  then obtain s1 rng1 lcd1 where
    c: "confirm_action stale (s, rng, lcd) = Some (s1, rng1, lcd1)" and
    r: "active_wumpus_roll (s1, rng1, lcd1) = (s', rng', lcd')"
    by (rule alarm_button_up_split)
  have i1: "stationary_dest_safe s1"
    using confirm_action_transport [OF c] assms(3) by (auto simp: stationary_dest_safe_def)
  then have "\<not> active_wumpus_mode s1" by (simp add: stationary_dest_safe_def)
  from active_wumpus_roll_frame(6) [OF r this] i1 show ?thesis by simp
next
  case EVENT_ALARM_LONG_PRESS
  then have "s' = s\<lparr>sound_mode_on := \<not> sound_mode_on s\<rparr>"
    using assms(1) by (simp add: wumpus_face_loop_def)
  then show ?thesis using assms(3) by (simp add: stationary_dest_safe_def)
next
  case EVENT_OTHER
  then show ?thesis using assms by (simp add: wumpus_face_loop_def)
qed

lemma run_dest_no_pit:
  assumes "run evs (s, rng, lcd) = Some (s', rng', lcd')" and "dest_no_pit s"
  shows "dest_no_pit s'"
  using assms
proof (induction evs arbitrary: s rng lcd)
  case Nil
  then show ?case by simp
next
  case (Cons e es)
  from Cons.prems(1) obtain w1 where
    l: "wumpus_face_loop (fst e) (snd e) (s, rng, lcd) = Some w1" and
    r: "run es w1 = Some (s', rng', lcd')"
    by (auto split: Option.bind_splits)
  obtain s1 rng1 lcd1 where w1: "w1 = (s1, rng1, lcd1)" by (cases w1) auto
  have "dest_no_pit s1" using l Cons.prems(2) unfolding w1 by (rule loop_dest_no_pit)
  with r show ?case unfolding w1 by (rule Cons.IH)
qed

lemma run_stationary_dest_safe:
  assumes "run evs (s, rng, lcd) = Some (s', rng', lcd')"
    and "EVENT_LIGHT_LONG_PRESS \<notin> fst ` set evs"
    and "stationary_dest_safe s"
  shows "stationary_dest_safe s'"
  using assms
proof (induction evs arbitrary: s rng lcd)
  case Nil
  then show ?case by simp
next
  case (Cons e es)
  from Cons.prems(1) obtain w1 where
    l: "wumpus_face_loop (fst e) (snd e) (s, rng, lcd) = Some w1" and
    r: "run es w1 = Some (s', rng', lcd')"
    by (auto split: Option.bind_splits)
  obtain s1 rng1 lcd1 where w1: "w1 = (s1, rng1, lcd1)" by (cases w1) auto
  have ne: "fst e \<noteq> EVENT_LIGHT_LONG_PRESS" and rest: "EVENT_LIGHT_LONG_PRESS \<notin> fst ` set es"
    using Cons.prems(2) by auto
  have "stationary_dest_safe s1"
    using l ne Cons.prems(3) unfolding w1 by (rule loop_stationary_dest_safe)
  with r rest show ?case unfolding w1 by (rule Cons.IH)
qed

subsection \<open>The example runs\<close>

text \<open>The equations that evaluate the face on concrete states, and the example data.\<close>

lemmas face_eval =
  wumpus_face_activate_def wumpus_face_loop_def loop_tick_def loop_light_button_up_def
  loop_alarm_button_up_def confirm_action_def active_wumpus_roll_def
  display_hazards_def display_death_def display_won_def play_melody_def
  go_to_selected_room_def shot_def shot_from.simps crooked_arrow_def path_valid_def
  wumpus_move_def wumpus_flee_def wumpus_flee_from.simps find_safe_random_room.simps
  get_rand_num_def init_game_def generate_hazards_def place_hazards_2 place_hazard_def
  generate_unique.simps cave_map_def melody_startup_def melody_win_def melody_lose_def
  melody_bats_def Let_def replicate_20 upt_rec no_stale_def event_def four_ticks_def
  transport_events_def win_events_def flash_events_def aim_events_def shot_events_def
  five_misses_events_def firing_def

lemmas example_defs =
  boot_state_def example_game_def example_hazards_def example_draws_def activated_game_def
  choosing_game_def carried_game_def landed_game_def carried_active_game_def
  landed_active_game_def near_hazards_def near_draws_def won_game_def died_game_def
  flash_game_def restarted_game_def beside_hazards_def beside_draws_def aiming_game_def
  self_shot_game_def aiming_active_game_def no_arrows_game_def out_of_arrows_game_def

lemma example_activation:
  "wumpus_face_activate (boot_state, example_draws rest, lcd) = Some (activated_game, rest, lcd)"
  by (simp add: face_eval example_defs)

lemma near_activation:
  "wumpus_face_activate (boot_state, near_draws rest, lcd) =
     Some (activated_game\<lparr>hazards := near_hazards\<rparr>, rest, lcd)"
  by (simp add: face_eval example_defs)

lemma choosing_run:
  "run [event EVENT_LIGHT_BUTTON_UP, event EVENT_ALARM_BUTTON_UP] (activated_game, rest, lcd) =
     Some (choosing_game, rest, lcd)"
  by (simp add: face_eval example_defs)

lemma choosing_confirm:
  "wumpus_face_loop EVENT_ALARM_BUTTON_UP no_stale (choosing_game, rest, lcd) =
     Some (activated_game\<lparr>current_action := wumpus_face_go\<rparr>, rest, ''Bt'')"
  by (simp add: face_eval example_defs)

lemma carried_run:
  "run transport_events (activated_game, 2 ## rest, lcd) = Some (carried_game, rest, lcd)"
  by (simp add: face_eval example_defs)

lemma landed_tick:
  "wumpus_face_loop EVENT_TICK no_stale (carried_game, rest, lcd) =
     Some (landed_game, rest, ''Bt'')"
  by (simp add: face_eval example_defs)

lemma carried_active_run:
  "run (event EVENT_LIGHT_LONG_PRESS # transport_events)
       (activated_game, 0 ## 2 ## 76 ## 0 ## rest, lcd) =
     Some (carried_active_game, rest, lcd)"
  by (simp add: face_eval example_defs)

lemma landed_active_tick:
  "wumpus_face_loop EVENT_TICK no_stale (carried_active_game, rest, lcd) =
     Some (landed_active_game, rest, ''Bt'')"
  by (simp add: face_eval example_defs)

lemma won_run:
  "run win_events (activated_game\<lparr>hazards := near_hazards\<rparr>, 0 ## 0 ## 0 ## rest, lcd) =
     Some (won_game, rest, ''t '')"
  by (simp add: face_eval example_defs)

lemma won_confirm:
  "wumpus_face_loop EVENT_ALARM_BUTTON_UP no_stale (won_game, 76 ## 0 ## rest, lcd) =
     Some (died_game, rest, ''UU'')"
  by (simp add: face_eval example_defs)

lemma flash_run:
  "run flash_events (activated_game\<lparr>hazards := near_hazards\<rparr>, 0 ## 0 ## 0 ## rest, lcd) =
     Some (flash_game, rest, ''t '')"
  by (simp add: face_eval example_defs)

lemma restart_tick:
  "wumpus_face_loop EVENT_TICK no_stale (flash_game, 5 ## 10 ## 11 ## 12 ## 13 ## 1 ## rest, lcd) =
     Some (restarted_game, rest, ''  '')"
  by (simp add: face_eval example_defs)

lemma beside_activation:
  "wumpus_face_activate (boot_state, beside_draws rest, lcd) =
     Some (activated_game\<lparr>hazards := beside_hazards\<rparr>, rest, lcd)"
  by (simp add: face_eval example_defs)

lemma aiming_run:
  "run aim_events (activated_game\<lparr>hazards := beside_hazards\<rparr>, rest, lcd) =
     Some (aiming_game, rest, lcd)"
  by (simp add: face_eval example_defs word_le_nat_alt)

lemma aiming_shot:
  "shot (firing aiming_game) (0 ## rest) lcd =
     (wumpus_face_died, (firing aiming_game)\<lparr>arrows := 4\<rparr>, 0 ## rest, ''Ar'')"
  by (simp add: face_eval example_defs word_le_nat_alt)

lemma aiming_confirm:
  "wumpus_face_loop EVENT_ALARM_BUTTON_UP no_stale (aiming_game, 0 ## rest, lcd) =
     Some (self_shot_game, rest, ''UU'')"
  by (simp add: face_eval example_defs word_le_nat_alt)

lemma aiming_active_run:
  "run [event EVENT_LIGHT_LONG_PRESS, event EVENT_ALARM_BUTTON_UP, event EVENT_ALARM_BUTTON_UP]
       (activated_game\<lparr>hazards := near_hazards\<rparr>, 0 ## 0 ## rest, lcd) =
     Some (aiming_active_game, rest, lcd)"
  by (simp add: face_eval example_defs)

lemma aiming_active_shot:
  "shot (firing aiming_active_game) rest lcd =
     (wumpus_face_won, (firing aiming_active_game)\<lparr>arrows := 4\<rparr>, rest, lcd)"
  by (simp add: face_eval example_defs)

lemma aiming_active_confirm:
  "wumpus_face_loop EVENT_ALARM_BUTTON_UP no_stale (aiming_active_game, 76 ## 0 ## rest, lcd) =
     Some (died_game, rest, ''UU'')"
  by (simp add: face_eval example_defs)

lemma no_arrows_run:
  "run five_misses_events (activated_game, 1 ## 2 ## 0 ## 2 ## 0 ## rest, lcd) =
     Some (no_arrows_game, rest, lcd)"
  by (simp add: face_eval example_defs)

lemma no_arrows_shot:
  "shot (firing no_arrows_game) rest lcd =
     (wumpus_face_died, (firing no_arrows_game)\<lparr>arrows := - 1\<rparr>, rest, ''Ar'')"
  by (simp add: face_eval example_defs)

lemma no_arrows_confirm:
  "wumpus_face_loop EVENT_ALARM_BUTTON_UP no_stale (no_arrows_game, 0 ## rest, lcd) =
     Some (out_of_arrows_game, rest, ''UU'')"
  by (simp add: face_eval example_defs)

subsection \<open>The restart tick, and the terminal states\<close>

lemma loop_tick_restart:
  assumes "current_melody s = MELODY_NONE" and "led_cnt s = 1"
    and "wumpus_face_loop EVENT_TICK stale (s, rng, lcd) = Some (s', rng', lcd')"
  obtains s0 where "init_game s rng = Some (s0, rng')"
    and "s' = (fst (display_hazards stale s0 lcd))\<lparr>led_cnt :=
                 led_cnt (fst (display_hazards stale s0 lcd)) - 1\<rparr>"
proof -
  have eq: "loop_tick stale (s, rng, lcd) =
      do { (s0, rng0) \<leftarrow> init_game s rng;
           Some ((fst (display_hazards stale s0 lcd))\<lparr>led_cnt :=
                    led_cnt (fst (display_hazards stale s0 lcd)) - 1\<rparr>,
                 rng0, snd (display_hazards stale s0 lcd)) }"
    using assms(1,2) by (simp add: loop_tick_def split: Option.bind_split prod.split)
  have "loop_tick stale (s, rng, lcd) = Some (s', rng', lcd')"
    using assms(3) by (simp add: wumpus_face_loop_def)
  then obtain s0 where "init_game s rng = Some (s0, rng')"
    and "s' = (fst (display_hazards stale s0 lcd))\<lparr>led_cnt :=
                 led_cnt (fst (display_hazards stale s0 lcd)) - 1\<rparr>"
    unfolding eq by (auto split: Option.bind_splits)
  then show thesis by (rule that)
qed

text \<open>
  In the two terminal states the cycle button changes nothing, and neither does the
  confirm button as long as the Wumpus is in stationary mode.
\<close>

lemma terminal_cycle_noop:
  assumes "current_action s = wumpus_face_won \<or> current_action s = wumpus_face_died"
  shows "wumpus_face_loop EVENT_LIGHT_BUTTON_UP stale (s, rng, lcd) = Some (s, rng, lcd)"
  using assms by (auto simp: wumpus_face_loop_def loop_light_button_up_def)

lemma terminal_confirm_stationary_noop:
  assumes "current_action s = wumpus_face_won \<or> current_action s = wumpus_face_died"
    and "\<not> active_wumpus_mode s"
  shows "wumpus_face_loop EVENT_ALARM_BUTTON_UP stale (s, rng, lcd) = Some (s, rng, lcd)"
  using assms
  by (auto simp: wumpus_face_loop_def loop_alarm_button_up_def confirm_action_def
      active_wumpus_roll_def)

section \<open>Claims on the shot, the roll and the generation\<close>

text \<open>
  Claim C3, as amended. In active mode the roll of \<^verbatim>\<open>_wumpus_move\<close> relocates the
  Wumpus if and only if the draw from \<open>[0, 100)\<close> is greater than 75: that is the case
  for exactly 24 of the 100 values (76 to 99), not 25. The header and the comments of
  the source say "24% chance" as well.
\<close>

theorem wumpus_move_draws:
  assumes "\<exists>k<20. hazards s ! k = wumpus_hazard_wumpus"
  shows "(\<forall>d. fst (wumpus_move s (d ## rng)) = (75 < d mod 100)) \<and>
         relocation_draws s rng = [76..<100] \<and>
         length (relocation_draws s rng) = 24"
  using assms by (simp add: relocation_draws_eq wumpus_move_fst)

theorem wumpus_move_draws_witness:
  "(\<exists>k<20. hazards example_game ! k = wumpus_hazard_wumpus) \<and>
   fst (wumpus_move example_game (76 ## sconst 0)) \<and>
   \<not> fst (wumpus_move example_game (75 ## sconst 0)) \<and>
   length (relocation_draws example_game (sconst 0)) = 24"
proof -
  note w = wumpus_move_draws [OF example_game_wumpus, of "sconst 0"]
  from w have "fst (wumpus_move example_game (76 ## sconst 0)) = (75 < (76::nat) mod 100)"
    by blast
  moreover
  from w have "fst (wumpus_move example_game (75 ## sconst 0)) = (75 < (75::nat) mod 100)"
    by blast
  moreover from w have "length (relocation_draws example_game (sconst 0)) = 24" by blast
  ultimately show ?thesis using example_game_wumpus by simp
qed

text \<open>
  Claim C3 as stated fails: in the example game the monster relocates on 24 of the 100
  draws, not on 25.
\<close>

theorem wumpus_move_25_counterexample:
  "length (relocation_draws example_game (sconst 0)) \<noteq> 25"
  by (simp add: relocation_draws_eq [OF example_game_wumpus])



text \<open>
  Claim C9. Whenever \<^verbatim>\<open>_generate_hazards\<close> returns, the hazard field has 20 rooms, of
  which exactly one holds the Wumpus, exactly two hold a pit, exactly two hold a bat and
  the other fifteen hold nothing; being counts of rooms, the five hazards are in five
  different rooms. The player's room, a room below 20, is among the empty ones.
\<close>

theorem generate_hazards_counts:
  assumes "generate_hazards p s rng = Some (s', rng')"
  shows "length (hazards s') = 20 \<and>
         count_list (hazards s') wumpus_hazard_wumpus = 1 \<and>
         count_list (hazards s') wumpus_hazard_pitfall = WUMPUS_NUM_PITS \<and>
         count_list (hazards s') wumpus_hazard_bat = WUMPUS_NUM_BATS \<and>
         count_list (hazards s') wumpus_hazard_none = 15 \<and>
         (unat p < 20 \<longrightarrow> hazards s' ! unat p = wumpus_hazard_none)"
proof -
  define s0 where "s0 = s\<lparr>hazards := replicate 20 wumpus_hazard_none\<rparr>"
  from assms obtain s1 r1 s2 r2 s3 r3 s4 r4 where
    p1: "place_hazard wumpus_hazard_pitfall p s0 rng = Some (s1, r1)" and
    p2: "place_hazard wumpus_hazard_pitfall p s1 r1 = Some (s2, r2)" and
    b1: "place_hazard wumpus_hazard_bat p s2 r2 = Some (s3, r3)" and
    b2: "place_hazard wumpus_hazard_bat p s3 r3 = Some (s4, r4)" and
    w: "place_hazard wumpus_hazard_wumpus p s4 r4 = Some (s', rng')"
    by (auto simp: generate_hazards_def place_hazards_2 s0_def Let_def
        split: Option.bind_splits)
  have c0: "length (hazards s0) = 20"
    "count_list (hazards s0) wumpus_hazard_none = 20"
    "count_list (hazards s0) wumpus_hazard_pitfall = 0"
    "count_list (hazards s0) wumpus_hazard_bat = 0"
    "count_list (hazards s0) wumpus_hazard_wumpus = 0"
    "unat p < 20 \<Longrightarrow> hazards s0 ! unat p = wumpus_hazard_none"
    by (simp_all add: s0_def count_list_replicate)
  note c1 = place_hazard_counts [OF p1 c0(1)]
  have l1: "length (hazards s1) = 20" using c1(1) by simp
  note c2 = place_hazard_counts [OF p2 l1]
  have l2: "length (hazards s2) = 20" using c2(1) by simp
  note c3 = place_hazard_counts [OF b1 l2]
  have l3: "length (hazards s3) = 20" using c3(1) by simp
  note c4 = place_hazard_counts [OF b2 l3]
  have l4: "length (hazards s4) = 20" using c4(1) by simp
  note c5 = place_hazard_counts [OF w l4]
  have len: "length (hazards s') = 20" using c5(1) by simp
  have wum: "count_list (hazards s') wumpus_hazard_wumpus = 1"
    using c0(5) c1(4) [of wumpus_hazard_wumpus] c2(4) [of wumpus_hazard_wumpus]
      c3(4) [of wumpus_hazard_wumpus] c4(4) [of wumpus_hazard_wumpus] c5(2) by simp
  have pit: "count_list (hazards s') wumpus_hazard_pitfall = 2"
    using c0(3) c1(2) c2(2) c3(4) [of wumpus_hazard_pitfall] c4(4) [of wumpus_hazard_pitfall]
      c5(4) [of wumpus_hazard_pitfall] by simp
  have bat: "count_list (hazards s') wumpus_hazard_bat = 2"
    using c0(4) c1(4) [of wumpus_hazard_bat] c2(4) [of wumpus_hazard_bat] c3(2) c4(2)
      c5(4) [of wumpus_hazard_bat] by simp
  have none: "count_list (hazards s') wumpus_hazard_none = 15"
    using c0(2) c1(3) c2(3) c3(3) c4(3) c5(3) by simp
  have own: "hazards s' ! unat p = wumpus_hazard_none" if "unat p < 20"
    using c0(6) [OF that] c1(5) c2(5) c3(5) c4(5) c5(5) by simp
  from len wum pit bat none own show ?thesis by simp
qed

theorem generate_hazards_counts_witness:
  "generate_hazards 0 boot_state (0 ## 10 ## 11 ## 1 ## 11 ## 12 ## 3 ## sconst 0) =
     Some (boot_state\<lparr>hazards := example_hazards\<rparr>, sconst 0) \<and>
   count_list example_hazards wumpus_hazard_wumpus = 1 \<and>
   count_list example_hazards wumpus_hazard_pitfall = 2 \<and>
   count_list example_hazards wumpus_hazard_bat = 2 \<and>
   count_list example_hazards wumpus_hazard_none = 15 \<and>
   example_hazards ! 0 = wumpus_hazard_none"
proof -
  have eq: "generate_hazards 0 boot_state (0 ## 10 ## 11 ## 1 ## 11 ## 12 ## 3 ## sconst 0) =
     Some (boot_state\<lparr>hazards := example_hazards\<rparr>, sconst 0)"
    by (simp add: generate_hazards_def place_hazards_2 place_hazard_def generate_unique.simps
        get_rand_num_def boot_state_def example_hazards_def Let_def replicate_20)
  from generate_hazards_counts [OF eq] eq show ?thesis by simp
qed

text \<open>
  Claim C10. \<^verbatim>\<open>_shot\<close> never moves the player: whatever the path, the arrows and the
  outcome, the player's room after the shot is the player's room before it.
\<close>

theorem shot_keeps_player_room:
  "player_room (fst (snd (shot s rng lcd))) = player_room s"
  by (rule shot_frame) simp_all

section \<open>Claims on the events\<close>

text \<open>
  Claim C1, as amended. In the state of choosing a destination, a confirm with no
  neighbour selected always returns, leaves the player's room unchanged and is resolved
  as a safe move: the action becomes "GO" (mode selection), not the choice of a
  destination again. In stationary mode that is all, and the hazards and the random
  source are untouched; in active mode the roll that follows every confirm may
  relocate the Wumpus, and the action is Died if it reaches the player.
\<close>

theorem confirm_without_selection:
  assumes "current_action s = wumpus_face_choosing_room" and "sint (selected_room_n s) < 0"
  shows "\<exists>s' rng' lcd'.
           wumpus_face_loop EVENT_ALARM_BUTTON_UP stale (s, rng, lcd) = Some (s', rng', lcd') \<and>
           player_room s' = player_room s \<and>
           (current_action s' = wumpus_face_go \<or>
            active_wumpus_mode s \<and> current_action s' = wumpus_face_died) \<and>
           (\<not> active_wumpus_mode s \<longrightarrow>
              current_action s' = wumpus_face_go \<and> hazards s' = hazards s \<and> rng' = rng)"
proof -
  define sb where "sb = s\<lparr>current_action := wumpus_face_go, digits_tick_show := True\<rparr>"
  define s1 where "s1 = fst (display_hazards stale sb lcd)"
  define lcd1 where "lcd1 = snd (display_hazards stale sb lcd)"
  have g: "go_to_selected_room s = (wumpus_hazard_none, s)"
    using assms(2) by (simp add: go_to_selected_room_def)
  have c: "confirm_action stale (s, rng, lcd) = Some (s1, rng, lcd1)"
    using assms(1) g by (simp add: confirm_action_def sb_def s1_def lcd1_def split: prod.split)
  have "display_only sb s1" unfolding s1_def by (rule display_hazards_display_only)
  note d = display_only_fields [OF this]
  obtain s' rng' lcd' where r: "active_wumpus_roll (s1, rng, lcd1) = (s', rng', lcd')"
    by (cases "active_wumpus_roll (s1, rng, lcd1)") auto
  note f = active_wumpus_roll_frame [OF r]
  have l: "wumpus_face_loop EVENT_ALARM_BUTTON_UP stale (s, rng, lcd) = Some (s', rng', lcd')"
    by (simp add: wumpus_face_loop_def loop_alarm_button_up_def c r)
  have p: "player_room s' = player_room s" using f(3) d(1) by (simp add: sb_def)
  have a: "current_action s' = wumpus_face_go \<or>
           active_wumpus_mode s \<and> current_action s' = wumpus_face_died"
  proof (cases "active_wumpus_mode s")
    case True
    then show ?thesis using f(4) d(4) by (auto simp: sb_def)
  next
    case False
    then have "\<not> active_wumpus_mode s1" using d(11) by (simp add: sb_def)
    from f(6) [OF this] show ?thesis using d(4) by (simp add: sb_def)
  qed
  have q: "current_action s' = wumpus_face_go \<and> hazards s' = hazards s \<and> rng' = rng"
    if "\<not> active_wumpus_mode s"
  proof -
    from that have "\<not> active_wumpus_mode s1" using d(11) by (simp add: sb_def)
    from f(6) [OF this] show ?thesis using d(2,4) by (simp add: sb_def)
  qed
  from l p a q show ?thesis by blast
qed

theorem confirm_without_selection_witness:
  "current_action choosing_game = wumpus_face_choosing_room \<and>
   sint (selected_room_n choosing_game) < 0 \<and>
   (\<exists>s' lcd'.
      wumpus_face_loop EVENT_ALARM_BUTTON_UP no_stale (choosing_game, sconst 0, ''  '') =
        Some (s', sconst 0, lcd') \<and>
      player_room s' = 0 \<and> current_action s' = wumpus_face_go \<and>
      hazards s' = example_hazards)"
proof -
  have a: "current_action choosing_game = wumpus_face_choosing_room"
    and n: "sint (selected_room_n choosing_game) < 0"
    and m: "\<not> active_wumpus_mode choosing_game"
    and p: "player_room choosing_game = 0" and h: "hazards choosing_game = example_hazards"
    by (simp_all add: example_defs)
  from confirm_without_selection [OF a n, of no_stale "sconst 0" "''  ''"] m p h a n
  show ?thesis by auto
qed

text \<open>
  Claim C1 as stated fails: after the activation of the face, "GO" and a confirm, the
  player is choosing a destination with none selected; one more confirm leaves the
  state of choosing and returns to "GO".
\<close>

theorem confirm_without_selection_counterexample:
  "(wumpus_face_activate (boot_state, example_draws (sconst 0), ''  '') \<bind>
    run [event EVENT_LIGHT_BUTTON_UP, event EVENT_ALARM_BUTTON_UP]) =
     Some (choosing_game, sconst 0, ''  '') \<and>
   current_action choosing_game = wumpus_face_choosing_room \<and>
   selected_room_n choosing_game = - 1 \<and>
   wumpus_face_loop EVENT_ALARM_BUTTON_UP no_stale (choosing_game, sconst 0, ''  '') =
     Some (activated_game\<lparr>current_action := wumpus_face_go\<rparr>, sconst 0, ''Bt'') \<and>
   current_action (activated_game\<lparr>current_action := wumpus_face_go\<rparr>) \<noteq>
     wumpus_face_choosing_room"
proof -
  have "current_action choosing_game = wumpus_face_choosing_room \<and>
        selected_room_n choosing_game = - 1 \<and>
        current_action (activated_game\<lparr>current_action := wumpus_face_go\<rparr>) \<noteq>
          wumpus_face_choosing_room"
    by (simp add: example_defs)
  then show ?thesis
    by (simp only: example_activation Option.bind.bind_lunit choosing_run choosing_confirm
        simp_thms)
qed

text \<open>
  Claim C2, as amended. Both settings are reset by every new game. The activation of
  the face, whenever it returns, leaves the Wumpus stationary and the sound on; so does
  the tick that ends the flash after a win or a loss (no melody playing, LED counter at
  1), which starts a new game through \<^verbatim>\<open>_init_game\<close>: whenever it returns, the action is
  "shoot", the arrows are five and both settings are back at their defaults, whatever
  they were before. Within a game only the two long presses change the settings: a long
  press of the light button inverts the mode and keeps the sound setting, a long press
  of the alarm button inverts the sound setting and keeps the mode, and every other
  event that returns, the restart tick apart, leaves both as they were.
\<close>

theorem new_game_resets_settings:
  "(wumpus_face_activate (s, rng, lcd) = Some (sa, rnga, lcda) \<longrightarrow>
      \<not> active_wumpus_mode sa \<and> sound_mode_on sa) \<and>
   (wumpus_face_loop ev stale (s, rng, lcd) = Some (s', rng', lcd') \<longrightarrow>
      (ev = EVENT_TICK \<and> current_melody s = MELODY_NONE \<and> led_cnt s = 1 \<longrightarrow>
         current_action s' = wumpus_face_shoot \<and> arrows s' = WUMPUS_NUM_ARROWS \<and>
         \<not> active_wumpus_mode s' \<and> sound_mode_on s') \<and>
      (ev = EVENT_LIGHT_LONG_PRESS \<longrightarrow>
         active_wumpus_mode s' = (\<not> active_wumpus_mode s) \<and>
         sound_mode_on s' = sound_mode_on s) \<and>
      (ev = EVENT_ALARM_LONG_PRESS \<longrightarrow>
         active_wumpus_mode s' = active_wumpus_mode s \<and>
         sound_mode_on s' = (\<not> sound_mode_on s)) \<and>
      (ev \<noteq> EVENT_LIGHT_LONG_PRESS \<and> ev \<noteq> EVENT_ALARM_LONG_PRESS \<and>
       \<not> (ev = EVENT_TICK \<and> current_melody s = MELODY_NONE \<and> led_cnt s = 1) \<longrightarrow>
         active_wumpus_mode s' = active_wumpus_mode s \<and>
         sound_mode_on s' = sound_mode_on s))"
proof -
  have act: "\<not> active_wumpus_mode sa \<and> sound_mode_on sa"
    if a: "wumpus_face_activate (s, rng, lcd) = Some (sa, rnga, lcda)"
  proof -
    from a obtain s0 where ig: "init_game s rng = Some (s0, rnga)"
      and sa: "sa = play_melody MELODY_STARTUP s0"
      by (auto simp: wumpus_face_activate_def split: bind_splits)
    have "display_only s0 sa" unfolding sa by (rule play_melody_display_only)
    from display_only_fields(11,12) [OF this] init_game_fields(2,3) [OF ig]
    show ?thesis by simp
  qed
  have restart: "current_action s' = wumpus_face_shoot \<and> arrows s' = WUMPUS_NUM_ARROWS \<and>
                 \<not> active_wumpus_mode s' \<and> sound_mode_on s'"
    if l: "wumpus_face_loop ev stale (s, rng, lcd) = Some (s', rng', lcd')"
      and c: "ev = EVENT_TICK" "current_melody s = MELODY_NONE" "led_cnt s = 1"
  proof -
    from l c(1) have "wumpus_face_loop EVENT_TICK stale (s, rng, lcd) = Some (s', rng', lcd')"
      by simp
    from c(2,3) this obtain s0 where ig: "init_game s rng = Some (s0, rng')"
      and s': "s' = (fst (display_hazards stale s0 lcd))\<lparr>led_cnt :=
                   led_cnt (fst (display_hazards stale s0 lcd)) - 1\<rparr>"
      by (rule loop_tick_restart)
    have "display_only s0 (fst (display_hazards stale s0 lcd))"
      by (rule display_hazards_display_only)
    from display_only_fields [OF this] init_game_fields [OF ig] show ?thesis
      by (simp add: s')
  qed
  have light: "active_wumpus_mode s' = (\<not> active_wumpus_mode s) \<and>
               sound_mode_on s' = sound_mode_on s"
    if "wumpus_face_loop ev stale (s, rng, lcd) = Some (s', rng', lcd')"
      and "ev = EVENT_LIGHT_LONG_PRESS"
    using that by (auto simp: wumpus_face_loop_def)
  have alarm: "active_wumpus_mode s' = active_wumpus_mode s \<and>
               sound_mode_on s' = (\<not> sound_mode_on s)"
    if "wumpus_face_loop ev stale (s, rng, lcd) = Some (s', rng', lcd')"
      and "ev = EVENT_ALARM_LONG_PRESS"
    using that by (auto simp: wumpus_face_loop_def)
  have other: "active_wumpus_mode s' = active_wumpus_mode s \<and>
               sound_mode_on s' = sound_mode_on s"
    if l: "wumpus_face_loop ev stale (s, rng, lcd) = Some (s', rng', lcd')"
      and n: "ev \<noteq> EVENT_LIGHT_LONG_PRESS" "ev \<noteq> EVENT_ALARM_LONG_PRESS"
        "\<not> (ev = EVENT_TICK \<and> current_melody s = MELODY_NONE \<and> led_cnt s = 1)"
  proof (cases ev)
    case EVENT_ACTIVATE
    with l have s': "s' = fst (display_hazards stale s lcd)"
      by (auto simp: wumpus_face_loop_def split: prod.splits)
    have "display_only s s'" unfolding s' by (rule display_hazards_display_only)
    from display_only_fields(11,12) [OF this] show ?thesis by simp
  next
    case EVENT_TICK
    with l have "loop_tick stale (s, rng, lcd) = Some (s', rng', lcd')"
      by (simp add: wumpus_face_loop_def)
    from loop_tick_transport [OF this] n(3) EVENT_TICK show ?thesis by blast
  next
    case EVENT_LIGHT_BUTTON_UP
    with l have "s' = loop_light_button_up s" by (auto simp: wumpus_face_loop_def)
    with loop_light_button_up_transport [of s] show ?thesis by simp
  next
    case EVENT_LIGHT_LONG_PRESS
    with n(1) show ?thesis by simp
  next
    case EVENT_ALARM_BUTTON_UP
    with l have "loop_alarm_button_up stale (s, rng, lcd) = Some (s', rng', lcd')"
      by (simp add: wumpus_face_loop_def)
    then obtain s1 rng1 lcd1
      where c: "confirm_action stale (s, rng, lcd) = Some (s1, rng1, lcd1)"
        and r: "active_wumpus_roll (s1, rng1, lcd1) = (s', rng', lcd')"
      by (rule alarm_button_up_split)
    from confirm_action_transport(1,3) [OF c] active_wumpus_roll_frame(1,7) [OF r]
    show ?thesis by simp
  next
    case EVENT_ALARM_LONG_PRESS
    with n(2) show ?thesis by simp
  next
    case EVENT_OTHER
    with l show ?thesis by (auto simp: wumpus_face_loop_def)
  qed
  from act restart light alarm other show ?thesis by blast
qed

theorem new_game_resets_settings_witness:
  "wumpus_face_activate (boot_state, example_draws (sconst 0), ''  '') =
     Some (activated_game, sconst 0, ''  '') \<and>
   \<not> active_wumpus_mode activated_game \<and> sound_mode_on activated_game \<and>
   current_melody flash_game = MELODY_NONE \<and> led_cnt flash_game = 1 \<and>
   active_wumpus_mode flash_game \<and> \<not> sound_mode_on flash_game \<and>
   wumpus_face_loop EVENT_TICK no_stale
     (flash_game, 5 ## 10 ## 11 ## 12 ## 13 ## 1 ## sconst 0, ''t '') =
     Some (restarted_game, sconst 0, ''  '') \<and>
   current_action restarted_game = wumpus_face_shoot \<and> arrows restarted_game = 5 \<and>
   \<not> active_wumpus_mode restarted_game \<and> sound_mode_on restarted_game \<and>
   wumpus_face_loop EVENT_LIGHT_LONG_PRESS no_stale (activated_game, sconst 0, ''  '') =
     Some (activated_game\<lparr>active_wumpus_mode := True\<rparr>, sconst 0, ''  '') \<and>
   active_wumpus_mode (activated_game\<lparr>active_wumpus_mode := True\<rparr>) \<and>
   sound_mode_on (activated_game\<lparr>active_wumpus_mode := True\<rparr>) \<and>
   wumpus_face_loop EVENT_ALARM_LONG_PRESS no_stale (activated_game, sconst 0, ''  '') =
     Some (activated_game\<lparr>sound_mode_on := False\<rparr>, sconst 0, ''  '') \<and>
   \<not> active_wumpus_mode (activated_game\<lparr>sound_mode_on := False\<rparr>) \<and>
   \<not> sound_mode_on (activated_game\<lparr>sound_mode_on := False\<rparr>) \<and>
   wumpus_face_loop EVENT_ALARM_BUTTON_UP no_stale (choosing_game, sconst 0, ''  '') =
     Some (activated_game\<lparr>current_action := wumpus_face_go\<rparr>, sconst 0, ''Bt'') \<and>
   active_wumpus_mode (activated_game\<lparr>current_action := wumpus_face_go\<rparr>) =
     active_wumpus_mode choosing_game \<and>
   sound_mode_on (activated_game\<lparr>current_action := wumpus_face_go\<rparr>) =
     sound_mode_on choosing_game"
proof -
  have m: "current_melody flash_game = MELODY_NONE" and l: "led_cnt flash_game = 1"
    and f: "active_wumpus_mode flash_game" "\<not> sound_mode_on flash_game"
    and a: "\<not> active_wumpus_mode activated_game" "sound_mode_on activated_game"
    and c: "active_wumpus_mode choosing_game = active_wumpus_mode activated_game"
      "sound_mode_on choosing_game = sound_mode_on activated_game"
    by (simp_all add: example_defs)
  have ll: "wumpus_face_loop EVENT_LIGHT_LONG_PRESS no_stale (activated_game, sconst 0, ''  '') =
              Some (activated_game\<lparr>active_wumpus_mode := True\<rparr>, sconst 0, ''  '')"
    and al: "wumpus_face_loop EVENT_ALARM_LONG_PRESS no_stale (activated_game, sconst 0, ''  '') =
              Some (activated_game\<lparr>sound_mode_on := False\<rparr>, sconst 0, ''  '')"
    using a by (simp_all add: wumpus_face_loop_def)
  note ea = example_activation [of "sconst 0" "''  ''"]
  note rt = restart_tick [of "sconst 0" "''t ''"]
  note cc = choosing_confirm [of "sconst 0" "''  ''"]
  from new_game_resets_settings [where s = boot_state and rng = "example_draws (sconst 0)"
      and lcd = "''  ''" and sa = activated_game and rnga = "sconst 0" and lcda = "''  ''"] ea
  have 1: "\<not> active_wumpus_mode activated_game \<and> sound_mode_on activated_game"
    by simp
  from new_game_resets_settings [where s = flash_game
      and rng = "5 ## 10 ## 11 ## 12 ## 13 ## 1 ## sconst 0" and lcd = "''t ''"
      and ev = EVENT_TICK and stale = no_stale and s' = restarted_game
      and rng' = "sconst 0" and lcd' = "''  ''"] rt m l
  have 2: "current_action restarted_game = wumpus_face_shoot \<and> arrows restarted_game = 5 \<and>
           \<not> active_wumpus_mode restarted_game \<and> sound_mode_on restarted_game"
    by simp
  from new_game_resets_settings [where s = activated_game and rng = "sconst 0"
      and lcd = "''  ''" and ev = EVENT_LIGHT_LONG_PRESS and stale = no_stale
      and s' = "activated_game\<lparr>active_wumpus_mode := True\<rparr>"
      and rng' = "sconst 0" and lcd' = "''  ''"] ll a
  have 3: "active_wumpus_mode (activated_game\<lparr>active_wumpus_mode := True\<rparr>) \<and>
           sound_mode_on (activated_game\<lparr>active_wumpus_mode := True\<rparr>)"
    by simp
  from new_game_resets_settings [where s = activated_game and rng = "sconst 0"
      and lcd = "''  ''" and ev = EVENT_ALARM_LONG_PRESS and stale = no_stale
      and s' = "activated_game\<lparr>sound_mode_on := False\<rparr>"
      and rng' = "sconst 0" and lcd' = "''  ''"] al a
  have 4: "\<not> active_wumpus_mode (activated_game\<lparr>sound_mode_on := False\<rparr>) \<and>
           \<not> sound_mode_on (activated_game\<lparr>sound_mode_on := False\<rparr>)"
    by simp
  from new_game_resets_settings [where s = choosing_game and rng = "sconst 0"
      and lcd = "''  ''" and ev = EVENT_ALARM_BUTTON_UP and stale = no_stale
      and s' = "activated_game\<lparr>current_action := wumpus_face_go\<rparr>"
      and rng' = "sconst 0" and lcd' = "''Bt''"] cc
  have 5: "active_wumpus_mode (activated_game\<lparr>current_action := wumpus_face_go\<rparr>) =
             active_wumpus_mode choosing_game \<and>
           sound_mode_on (activated_game\<lparr>current_action := wumpus_face_go\<rparr>) =
             sound_mode_on choosing_game"
    by simp
  from ea m l f rt ll al cc 1 2 3 4 5 show ?thesis by blast
qed

text \<open>
  Claim C2 as stated fails: the player switches to active mode, wins, switches the
  sound off during the winning melody, and the tick that ends the flash starts a game
  in stationary mode with the sound on.
\<close>

theorem settings_persist_counterexample:
  "(wumpus_face_activate
      (boot_state, near_draws (0 ## 0 ## 0 ## 5 ## 10 ## 11 ## 12 ## 13 ## 1 ## sconst 0),
       ''  '') \<bind> run flash_events) =
     Some (flash_game, 5 ## 10 ## 11 ## 12 ## 13 ## 1 ## sconst 0, ''t '') \<and>
   current_action flash_game = wumpus_face_won \<and>
   active_wumpus_mode flash_game \<and> \<not> sound_mode_on flash_game \<and>
   wumpus_face_loop EVENT_TICK no_stale
     (flash_game, 5 ## 10 ## 11 ## 12 ## 13 ## 1 ## sconst 0, ''t '') =
     Some (restarted_game, sconst 0, ''  '') \<and>
   \<not> active_wumpus_mode restarted_game \<and> sound_mode_on restarted_game"
proof -
  have "current_action flash_game = wumpus_face_won \<and>
        active_wumpus_mode flash_game \<and> \<not> sound_mode_on flash_game \<and>
        \<not> active_wumpus_mode restarted_game \<and> sound_mode_on restarted_game"
    by (simp add: example_defs)
  then show ?thesis
    by (simp only: near_activation Option.bind.bind_lunit flash_run restart_tick simp_thms)
qed

text \<open>
  Claim C5 does not hold of the code: the cycle button is a no-op in the states Won and
  Died, and so is the \<^verbatim>\<open>switch\<close> of the confirm button, but the active-mode roll after
  that \<^verbatim>\<open>switch\<close> runs in every state. Here the player switches to active mode and shoots
  the Wumpus next door; the game is won. One more confirm, with a roll of 76, moves the
  shot Wumpus into the player's room: the hazards change and the won game is lost.
\<close>

theorem confirm_after_win_loses:
  "(wumpus_face_activate (boot_state, near_draws (0 ## 0 ## 0 ## 76 ## 0 ## sconst 0), ''  '')
      \<bind> run win_events) = Some (won_game, 76 ## 0 ## sconst 0, ''t '') \<and>
   current_action won_game = wumpus_face_won \<and>
   wumpus_face_loop EVENT_ALARM_BUTTON_UP no_stale (won_game, 76 ## 0 ## sconst 0, ''t '') =
     Some (died_game, sconst 0, ''UU'') \<and>
   current_action died_game = wumpus_face_died \<and>
   hazards died_game \<noteq> hazards won_game"
proof -
  have "current_action won_game = wumpus_face_won \<and>
        current_action died_game = wumpus_face_died \<and>
        hazards died_game \<noteq> hazards won_game"
    by (simp add: example_defs)
  then show ?thesis
    by (simp only: near_activation Option.bind.bind_lunit won_run won_confirm simp_thms)
qed

text \<open>
  Claim C4 does not hold of the code. \<^verbatim>\<open>_shot\<close> itself, called with no arrow left,
  returns Died with cause "Ar", traverses no room and leaves the hazards alone (lemma
  \<open>shot_without_arrows\<close>); but the confirm handler takes every result other than Won for a
  missed shot, and in stationary mode goes on to \<^verbatim>\<open>_wumpus_flee\<close>. Here the player misses
  five shots into room 1 and the Wumpus flees to room 4, next to the player in room 0.
  The sixth shot finds no arrow: \<^verbatim>\<open>_shot\<close> returns Died with cause "Ar" and the hazards
  as they were, and the handler then moves the Wumpus from room 4 into the player's room
  and replaces the cause on the display with "UU", the Wumpus.
\<close>

theorem shot_without_arrows_moves_wumpus:
  "(wumpus_face_activate
      (boot_state, example_draws (1 ## 2 ## 0 ## 2 ## 0 ## 0 ## sconst 0), ''  '') \<bind>
    run five_misses_events) = Some (no_arrows_game, 0 ## sconst 0, ''  '') \<and>
   arrows no_arrows_game = 0 \<and> \<not> active_wumpus_mode no_arrows_game \<and>
   shots_picked (firing no_arrows_game) = shots_path_len (firing no_arrows_game) \<and>
   shot (firing no_arrows_game) (0 ## sconst 0) ''  '' =
     (wumpus_face_died, (firing no_arrows_game)\<lparr>arrows := - 1\<rparr>, 0 ## sconst 0, ''Ar'') \<and>
   wumpus_face_loop EVENT_ALARM_BUTTON_UP no_stale (no_arrows_game, 0 ## sconst 0, ''  '') =
     Some (out_of_arrows_game, sconst 0, ''UU'') \<and>
   current_action out_of_arrows_game = wumpus_face_died \<and>
   player_room out_of_arrows_game = 0 \<and>
   hazards no_arrows_game ! 4 = wumpus_hazard_wumpus \<and>
   hazards no_arrows_game ! 0 = wumpus_hazard_none \<and>
   hazards out_of_arrows_game ! 4 = wumpus_hazard_none \<and>
   hazards out_of_arrows_game ! 0 = wumpus_hazard_wumpus \<and>
   hazards out_of_arrows_game \<noteq> hazards no_arrows_game"
proof -
  have "arrows no_arrows_game = 0 \<and> \<not> active_wumpus_mode no_arrows_game \<and>
        shots_picked (firing no_arrows_game) = shots_path_len (firing no_arrows_game) \<and>
        current_action out_of_arrows_game = wumpus_face_died \<and>
        player_room out_of_arrows_game = 0 \<and>
        hazards no_arrows_game ! 4 = wumpus_hazard_wumpus \<and>
        hazards no_arrows_game ! 0 = wumpus_hazard_none \<and>
        hazards out_of_arrows_game ! 4 = wumpus_hazard_none \<and>
        hazards out_of_arrows_game ! 0 = wumpus_hazard_wumpus \<and>
        hazards out_of_arrows_game \<noteq> hazards no_arrows_game"
    by (simp add: example_defs firing_def)
  then show ?thesis
    by (simp only: example_activation Option.bind.bind_lunit no_arrows_run no_arrows_shot
        no_arrows_confirm simp_thms)
qed

text \<open>
  Claim C7 does not hold of the code in two of its cases. Each path room is treated by
  \<^verbatim>\<open>_shot\<close> as claimed (lemma \<open>shot_room_outcomes\<close>), and a bat, a pit or an empty room
  are as claimed; but the results Died and Won that \<^verbatim>\<open>_shot\<close> returns are not final
  in the event that fires the shot.

  First, in stationary mode with the Wumpus in room 4, the player in room 0 shoots a
  path of room 1 and room 0: the arrow comes back, \<^verbatim>\<open>_shot\<close> returns Died with cause
  "Ar", and the handler, taking every result other than Won for a missed shot, then
  moves the Wumpus from room 4 into the player's room and replaces the cause with "UU".

  Second, in active mode the player shoots the Wumpus in room 1: \<^verbatim>\<open>_shot\<close> returns Won,
  and the roll after the \<^verbatim>\<open>switch\<close> of the same confirm, at 76, moves the shot Wumpus
  into the player's room: the event ends with the action Died and "UU" on the display.
\<close>

theorem shot_outcomes_overridden:
  "(wumpus_face_activate (boot_state, beside_draws (0 ## sconst 0), ''  '') \<bind>
    run aim_events) = Some (aiming_game, 0 ## sconst 0, ''  '') \<and>
   \<not> active_wumpus_mode aiming_game \<and>
   shots_picked (firing aiming_game) = shots_path_len (firing aiming_game) \<and>
   shots_path (firing aiming_game) ! 1 = player_room aiming_game \<and>
   shot (firing aiming_game) (0 ## sconst 0) ''  '' =
     (wumpus_face_died, (firing aiming_game)\<lparr>arrows := 4\<rparr>, 0 ## sconst 0, ''Ar'') \<and>
   wumpus_face_loop EVENT_ALARM_BUTTON_UP no_stale (aiming_game, 0 ## sconst 0, ''  '') =
     Some (self_shot_game, sconst 0, ''UU'') \<and>
   current_action self_shot_game = wumpus_face_died \<and>
   hazards aiming_game ! 4 = wumpus_hazard_wumpus \<and>
   hazards self_shot_game ! 4 = wumpus_hazard_none \<and>
   hazards self_shot_game ! unat (player_room self_shot_game) = wumpus_hazard_wumpus \<and>
   (wumpus_face_activate
      (boot_state, near_draws (0 ## 0 ## 76 ## 0 ## sconst 0), ''  '') \<bind>
    run [event EVENT_LIGHT_LONG_PRESS, event EVENT_ALARM_BUTTON_UP,
         event EVENT_ALARM_BUTTON_UP]) =
     Some (aiming_active_game, 76 ## 0 ## sconst 0, ''  '') \<and>
   active_wumpus_mode aiming_active_game \<and>
   shots_picked (firing aiming_active_game) = shots_path_len (firing aiming_active_game) \<and>
   hazards aiming_active_game ! unat (shots_path (firing aiming_active_game) ! 0) =
     wumpus_hazard_wumpus \<and>
   shot (firing aiming_active_game) (76 ## 0 ## sconst 0) ''  '' =
     (wumpus_face_won, (firing aiming_active_game)\<lparr>arrows := 4\<rparr>, 76 ## 0 ## sconst 0,
      ''  '') \<and>
   wumpus_face_loop EVENT_ALARM_BUTTON_UP no_stale
     (aiming_active_game, 76 ## 0 ## sconst 0, ''  '') = Some (died_game, sconst 0, ''UU'') \<and>
   current_action died_game = wumpus_face_died"
proof -
  have "\<not> active_wumpus_mode aiming_game \<and>
        shots_picked (firing aiming_game) = shots_path_len (firing aiming_game) \<and>
        shots_path (firing aiming_game) ! 1 = player_room aiming_game \<and>
        current_action self_shot_game = wumpus_face_died \<and>
        hazards aiming_game ! 4 = wumpus_hazard_wumpus \<and>
        hazards self_shot_game ! 4 = wumpus_hazard_none \<and>
        hazards self_shot_game ! unat (player_room self_shot_game) = wumpus_hazard_wumpus \<and>
        active_wumpus_mode aiming_active_game \<and>
        shots_picked (firing aiming_active_game) = shots_path_len (firing aiming_active_game) \<and>
        hazards aiming_active_game ! unat (shots_path (firing aiming_active_game) ! 0) =
          wumpus_hazard_wumpus \<and>
        current_action died_game = wumpus_face_died"
    by (simp add: example_defs firing_def)
  then show ?thesis
    by (simp only: beside_activation near_activation Option.bind.bind_lunit aiming_run
        aiming_shot aiming_confirm aiming_active_run aiming_active_shot
        aiming_active_confirm simp_thms)
qed

text \<open>
  Claim C8, as amended. Take any run of the face from a state outside a bat transport,
  and a tick that ends a transport, setting the player down (action "GO"). The player
  is then in the destination room of the transport, which holds no bat and no pit; and
  it does not hold the Wumpus if the game was in stationary mode at the start of the
  run and the run has no long press of the light button, so that the mode never became
  active. In active mode the Wumpus can move into the room after it has been drawn.
\<close>

theorem bat_transport_landing:
  assumes "current_action s0 \<noteq> wumpus_face_bat_transport"
    and "run evs (s0, rng0, lcd0) = Some (s, rng, lcd)"
    and "current_action s = wumpus_face_bat_transport"
    and "wumpus_face_loop EVENT_TICK stale (s, rng, lcd) = Some (s', rng', lcd')"
    and "current_action s' = wumpus_face_go"
  shows "player_room s' = transport_dest_room s \<and>
         hazards s' ! unat (player_room s') \<noteq> wumpus_hazard_bat \<and>
         hazards s' ! unat (player_room s') \<noteq> wumpus_hazard_pitfall \<and>
         (\<not> active_wumpus_mode s0 \<and> EVENT_LIGHT_LONG_PRESS \<notin> fst ` set evs \<longrightarrow>
            hazards s' ! unat (player_room s') \<noteq> wumpus_hazard_wumpus)"
proof -
  have "loop_tick stale (s, rng, lcd) = Some (s', rng', lcd')"
    using assms(4) by (simp add: wumpus_face_loop_def)
  from loop_tick_transport [OF this] assms(3,5)
  have land: "hazards s' = hazards s" "player_room s' = transport_dest_room s"
    "hazards s ! unat (transport_dest_room s) \<noteq> wumpus_hazard_bat"
    by auto
  have "dest_no_pit s0" using assms(1) by (simp add: dest_no_pit_def)
  from run_dest_no_pit [OF assms(2) this] assms(3)
  have pit: "hazards s ! unat (transport_dest_room s) \<noteq> wumpus_hazard_pitfall"
    by (simp add: dest_no_pit_def)
  have wum: "hazards s ! unat (transport_dest_room s) \<noteq> wumpus_hazard_wumpus"
    if "\<not> active_wumpus_mode s0" "EVENT_LIGHT_LONG_PRESS \<notin> fst ` set evs"
  proof -
    have "stationary_dest_safe s0"
      using assms(1) that(1) by (simp add: stationary_dest_safe_def)
    from run_stationary_dest_safe [OF assms(2) that(2) this] assms(3)
    show ?thesis by (simp add: stationary_dest_safe_def)
  qed
  from land pit wum show ?thesis by simp
qed

theorem bat_transport_landing_witness:
  "current_action activated_game \<noteq> wumpus_face_bat_transport \<and>
   \<not> active_wumpus_mode activated_game \<and>
   EVENT_LIGHT_LONG_PRESS \<notin> fst ` set transport_events \<and>
   run transport_events (activated_game, 2 ## sconst 0, ''  '') =
     Some (carried_game, sconst 0, ''  '') \<and>
   current_action carried_game = wumpus_face_bat_transport \<and>
   wumpus_face_loop EVENT_TICK no_stale (carried_game, sconst 0, ''  '') =
     Some (landed_game, sconst 0, ''Bt'') \<and>
   current_action landed_game = wumpus_face_go \<and>
   player_room landed_game = 2 \<and>
   hazards landed_game ! unat (player_room landed_game) \<noteq> wumpus_hazard_bat \<and>
   hazards landed_game ! unat (player_room landed_game) \<noteq> wumpus_hazard_pitfall \<and>
   hazards landed_game ! unat (player_room landed_game) \<noteq> wumpus_hazard_wumpus"
proof -
  have a: "current_action activated_game \<noteq> wumpus_face_bat_transport"
    and m: "\<not> active_wumpus_mode activated_game"
    and c: "current_action carried_game = wumpus_face_bat_transport"
    and g: "current_action landed_game = wumpus_face_go"
    and d: "transport_dest_room carried_game = 2"
    by (simp_all add: example_defs)
  have e: "EVENT_LIGHT_LONG_PRESS \<notin> fst ` set transport_events"
    by (simp add: transport_events_def four_ticks_def event_def)
  note t = bat_transport_landing [OF a carried_run c landed_tick g]
  from t m e have r: "player_room landed_game = transport_dest_room carried_game"
    "hazards landed_game ! unat (player_room landed_game) \<noteq> wumpus_hazard_bat"
    "hazards landed_game ! unat (player_room landed_game) \<noteq> wumpus_hazard_pitfall"
    "hazards landed_game ! unat (player_room landed_game) \<noteq> wumpus_hazard_wumpus"
    by blast+
  have p: "player_room landed_game = 2" using r(1) d by simp
  from a m e c g p r(2,3,4) carried_run [of "sconst 0" "''  ''"]
    landed_tick [of "sconst 0" "''  ''"]
  show ?thesis by blast
qed

text \<open>
  Claim C8 as stated fails: in active mode the player walks into the bat of room 1 and
  room 2 is drawn; the roll after the same confirm moves the Wumpus from room 3 to
  room 2; after the melody and the delay the player is set down in room 2, with the
  Wumpus.
\<close>

theorem bat_transport_landing_counterexample:
  "(wumpus_face_activate
      (boot_state, example_draws (0 ## 2 ## 76 ## 0 ## sconst 0), ''  '') \<bind>
    run (event EVENT_LIGHT_LONG_PRESS # transport_events)) =
     Some (carried_active_game, sconst 0, ''  '') \<and>
   current_action carried_active_game = wumpus_face_bat_transport \<and>
   wumpus_face_loop EVENT_TICK no_stale (carried_active_game, sconst 0, ''  '') =
     Some (landed_active_game, sconst 0, ''Bt'') \<and>
   current_action landed_active_game = wumpus_face_go \<and>
   hazards landed_active_game ! unat (player_room landed_active_game) =
     wumpus_hazard_wumpus"
proof -
  have "current_action carried_active_game = wumpus_face_bat_transport \<and>
        current_action landed_active_game = wumpus_face_go \<and>
        hazards landed_active_game ! unat (player_room landed_active_game) =
          wumpus_hazard_wumpus"
    by (simp add: example_defs)
  then show ?thesis
    by (simp only: example_activation Option.bind.bind_lunit carried_active_run
        landed_active_tick simp_thms)
qed

end
